theory Spec2Isabelle
  imports Complex_Main "HOL-Library.Multiset"
begin

section \<open>Python and NumPy values\<close>

text \<open>
  A float is a finite number, an infinity or NaN. Arithmetic on finite numbers is exact:
  the rounding, overflow and underflow of finite results and the sign of zero are not
  modelled; the infinities and NaN follow IEEE 754. Distances, rates and amounts are finite
  numbers. Node indices are Python integers; a NumPy array of shape (n, n) is a list of n
  rows of n entries. Every exception the modelled code can raise is a value of \<open>error\<close>.
\<close>

datatype error = IndexError | KeyError | ValueError | ZeroDivisionError | TypeError

datatype float64 = F real | PosInf | NegInf | NaN

text \<open>Float addition and multiplication.\<close>

fun fadd :: "float64 \<Rightarrow> float64 \<Rightarrow> float64" where
  "fadd (F x) (F y) = F (x + y)"
| "fadd NaN y = NaN"
| "fadd x NaN = NaN"
| "fadd PosInf NegInf = NaN"
| "fadd NegInf PosInf = NaN"
| "fadd PosInf y = PosInf"
| "fadd NegInf y = NegInf"
| "fadd (F x) PosInf = PosInf"
| "fadd (F x) NegInf = NegInf"

fun fmul :: "float64 \<Rightarrow> float64 \<Rightarrow> float64" where
  "fmul (F x) (F y) = F (x * y)"
| "fmul NaN y = NaN"
| "fmul x NaN = NaN"
| "fmul PosInf (F y) = (if y = 0 then NaN else if 0 < y then PosInf else NegInf)"
| "fmul NegInf (F y) = (if y = 0 then NaN else if 0 < y then NegInf else PosInf)"
| "fmul (F x) PosInf = (if x = 0 then NaN else if 0 < x then PosInf else NegInf)"
| "fmul (F x) NegInf = (if x = 0 then NaN else if 0 < x then NegInf else PosInf)"
| "fmul PosInf PosInf = PosInf"
| "fmul PosInf NegInf = NegInf"
| "fmul NegInf PosInf = NegInf"
| "fmul NegInf NegInf = PosInf"

text \<open>The comparison \<open>x == y\<close> of two floats: NaN is equal to nothing, itself included.\<close>

fun np_eq :: "float64 \<Rightarrow> float64 \<Rightarrow> bool" where
  "np_eq NaN y = False"
| "np_eq x NaN = False"
| "np_eq x y = (x = y)"

text \<open>
  A number handed to a division is a Python number or a NumPy \<open>float64\<close> scalar. Dividing
  a Python float by a Python zero raises ZeroDivisionError; dividing it by a NumPy zero
  raises nothing and gives an infinity with the sign of the dividend, or NaN for \<open>0 / 0\<close>.
\<close>

datatype number = Py real | Np real

fun py_divide :: "real \<Rightarrow> number \<Rightarrow> error + float64" where
  "py_divide x (Py y) = (if y = 0 then Inl ZeroDivisionError else Inr (F (x / y)))"
| "py_divide x (Np y) =
     (if y = 0 then Inr (if 0 < x then PosInf else if x < 0 then NegInf else NaN)
      else Inr (F (x / y)))"

text \<open>
  Indexing an axis of length n with a Python integer: the indices \<open>0 .. n-1\<close> are valid,
  the indices \<open>-n .. -1\<close> count from the end, every other index raises IndexError.
\<close>

definition py_index :: "nat \<Rightarrow> int \<Rightarrow> nat option" where
  "py_index n i =
     (if 0 \<le> i \<and> i < int n then Some (nat i)
      else if - int n \<le> i \<and> i < 0 then Some (nat (int n + i))
      else None)"

text \<open>Reading \<open>m[i, j]\<close>.\<close>

definition mat_get :: "'a list list \<Rightarrow> int \<Rightarrow> int \<Rightarrow> error + 'a" where
  "mat_get m i j =
     (case py_index (length m) i of
        None \<Rightarrow> Inl IndexError
      | Some r \<Rightarrow>
          (case py_index (length (m ! r)) j of
             None \<Rightarrow> Inl IndexError
           | Some c \<Rightarrow> Inr (m ! r ! c)))"

text \<open>The update \<open>m[i, j] += d\<close>.\<close>

definition mat_add ::
  "float64 list list \<Rightarrow> int \<Rightarrow> int \<Rightarrow> float64 \<Rightarrow> error + float64 list list" where
  "mat_add m i j d =
     (case py_index (length m) i of
        None \<Rightarrow> Inl IndexError
      | Some r \<Rightarrow>
          (case py_index (length (m ! r)) j of
             None \<Rightarrow> Inl IndexError
           | Some c \<Rightarrow> Inr (m[r := (m ! r)[c := fadd (m ! r ! c) d]])))"

text \<open>\<open>np.clip(x, lo, hi)\<close> is \<open>minimum(maximum(x, lo), hi)\<close>.\<close>

definition np_clip :: "real \<Rightarrow> real \<Rightarrow> real \<Rightarrow> real" where
  "np_clip x lo hi = min (max x lo) hi"

text \<open>
  \<open>a or b\<close> on an optional float: \<open>None\<close> and \<open>0.0\<close> are falsy, so the right operand
  is the value in both cases.
\<close>

definition py_or :: "real option \<Rightarrow> real \<Rightarrow> real" where
  "py_or a b = (case a of None \<Rightarrow> b | Some x \<Rightarrow> if x = 0 then b else x)"

section \<open>AntsColony/Pheromone.py\<close>

record pheromone =
  trails :: "float64 list list"
  evaporation_rate :: real
  pheromone_deposit :: real

definition Pheromone_init :: "nat \<Rightarrow> real \<Rightarrow> real \<Rightarrow> pheromone" where
  "Pheromone_init num_nodes rate dep =
     \<lparr>trails = replicate num_nodes (replicate num_nodes (F (1 / 10))),
      evaporation_rate = np_clip rate 0 1,
      pheromone_deposit = dep\<rparr>"

definition evaporate :: "pheromone \<Rightarrow> real option \<Rightarrow> pheromone" where
  "evaporate p rate =
     (let r = (case rate of Some x \<Rightarrow> np_clip x 0 1 | None \<Rightarrow> evaporation_rate p)
      in p\<lparr>evaporation_rate := r,
            trails := map (map (\<lambda>x. fmul x (F (1 - r)))) (trails p)\<rparr>)"

text \<open>
  One edge of a deposit: \<open>trails[i, j] += d; trails[j, i] += d\<close>. The result is the
  matrix as the two statements leave it and the exception raised, if any.
\<close>

definition deposit_edge ::
  "float64 list list \<Rightarrow> int \<Rightarrow> int \<Rightarrow> float64 \<Rightarrow> float64 list list \<times> error option" where
  "deposit_edge m i j d =
     (case mat_add m i j d of
        Inl e \<Rightarrow> (m, Some e)
      | Inr m1 \<Rightarrow>
          (case mat_add m1 j i d of
             Inl e \<Rightarrow> (m1, Some e)
           | Inr m2 \<Rightarrow> (m2, None)))"

text \<open>The loop \<open>for i, j in zip(route[:-1], route[1:])\<close>.\<close>

fun deposit_edges ::
  "float64 list list \<Rightarrow> (int \<times> int) list \<Rightarrow> float64 \<Rightarrow> float64 list list \<times> error option" where
  "deposit_edges m [] d = (m, None)"
| "deposit_edges m ((i, j) # es) d =
     (case deposit_edge m i j d of
        (m1, Some e) \<Rightarrow> (m1, Some e)
      | (m1, None) \<Rightarrow> deposit_edges m1 es d)"

text \<open>
  \<open>Pheromone.deposit\<close>. The amount is a Python float; the length is a Python number or a
  NumPy scalar (the colony passes an ant's \<open>total_distance\<close>, a NumPy scalar). The
  division raises before any entry is touched, or raises nothing. \<open>route[0]\<close> on an empty
  route raises IndexError after the (empty) loop. The result is the state the call leaves
  behind and the exception it raised, if any.
\<close>

definition deposit ::
  "pheromone \<Rightarrow> int list \<Rightarrow> number \<Rightarrow> real option \<Rightarrow> pheromone \<times> error option" where
  "deposit p route len amount =
     (case py_divide (py_or amount (pheromone_deposit p)) len of
        Inl e \<Rightarrow> (p, Some e)
      | Inr deposit_amount \<Rightarrow>
        (case deposit_edges (trails p) (zip (butlast route) (tl route)) deposit_amount of
           (m, Some e) \<Rightarrow> (p\<lparr>trails := m\<rparr>, Some e)
         | (m, None) \<Rightarrow>
             (case route of
                [] \<Rightarrow> (p\<lparr>trails := m\<rparr>, Some IndexError)
              | _ # _ \<Rightarrow>
                  if hd route \<noteq> last route
                  then (case deposit_edge m (last route) (hd route) deposit_amount of
                          (m', err) \<Rightarrow> (p\<lparr>trails := m'\<rparr>, err))
                  else (p\<lparr>trails := m\<rparr>, None))))"

text \<open>
  A caller's sequence of calls on one pheromone field. A call that raises leaves the field
  as it was at the raise; the sequence goes on from there.
\<close>

datatype pheromone_call = Evaporate "real option" | Deposit "int list" number "real option"

fun call :: "pheromone \<Rightarrow> pheromone_call \<Rightarrow> pheromone" where
  "call p (Evaporate rate) = evaporate p rate"
| "call p (Deposit route len amount) = fst (deposit p route len amount)"

definition run_calls :: "pheromone \<Rightarrow> pheromone_call list \<Rightarrow> pheromone" where
  "run_calls p cs = foldl call p cs"

section \<open>Problems/Problem.py\<close>

text \<open>
  Reading a list of entries, each of which may raise: the first exception wins. The fancy
  indexing \<open>m[i, js]\<close> reads row i at the columns js, and \<open>m[is, js]\<close> reads the
  entries at the pairs of the two index lists.
\<close>

fun collect :: "(error + 'a) list \<Rightarrow> error + 'a list" where
  "collect [] = Inr []"
| "collect (x # xs) =
     (case x of
        Inl e \<Rightarrow> Inl e
      | Inr v \<Rightarrow> (case collect xs of Inl e \<Rightarrow> Inl e | Inr vs \<Rightarrow> Inr (v # vs)))"

definition mat_row :: "'a list list \<Rightarrow> int \<Rightarrow> int list \<Rightarrow> error + 'a list" where
  "mat_row m i js =
     (case py_index (length m) i of
        None \<Rightarrow> Inl IndexError
      | Some r \<Rightarrow> collect (map (mat_get m i) js))"

definition mat_pairs :: "'a list list \<Rightarrow> int list \<Rightarrow> int list \<Rightarrow> error + 'a list" where
  "mat_pairs m is js = collect (map (\<lambda>(i, j). mat_get m i j) (zip is js))"

text \<open>
  A problem instance. \<open>nodes\<close> holds the rows (name, x, y) of the loaded file, or
  \<open>None\<close> when the file was not found; the file names and the table of best known
  lengths play no part in the engine and are left out.
\<close>

type_synonym node = "int \<times> real \<times> real"

record problem =
  nodes :: "node list option"
  distances :: "real list list option"
  num_ants :: int
  p_alpha :: real
  p_beta :: real
  p_evaporation_rate :: real
  pheromone_rate :: real

definition compute_distance_matrix :: "node list \<Rightarrow> real list list" where
  "compute_distance_matrix ns =
     map (\<lambda>(_, xi, yi). map (\<lambda>(_, xj, yj). sqrt ((xi - xj)\<^sup>2 + (yi - yj)\<^sup>2)) ns) ns"

text \<open>
  \<open>Problem.__init__\<close>. Loading the file is input/output: its outcome (an exception, no
  file, or the rows read) is the argument \<open>loaded\<close>. A file without rows gives a data
  frame without columns, on which \<open>self.nodes['x']\<close> raises KeyError. The ant count and
  the other parameters are stored as given.
\<close>

definition Problem_init ::
  "error + node list option \<Rightarrow> int \<Rightarrow> real \<Rightarrow> real \<Rightarrow> real \<Rightarrow> real \<Rightarrow> error + problem" where
  "Problem_init loaded n_ants a b rate dep =
     (case loaded of
        Inl e \<Rightarrow> Inl e
      | Inr ns \<Rightarrow>
          (case ns of
             Some [] \<Rightarrow> Inl KeyError
           | _ \<Rightarrow>
               Inr \<lparr>nodes = ns,
                    distances = map_option compute_distance_matrix ns,
                    num_ants = n_ants, p_alpha = a, p_beta = b,
                    p_evaporation_rate = rate, pheromone_rate = dep\<rparr>))"

text \<open>
  \<open>Problem.get_length\<close>. The sum of \<open>np.sum\<close> is the exact sum of the edge lengths: the
  order in which NumPy adds them, and the rounding that depends on it, are not modelled.
\<close>

definition get_length :: "problem \<Rightarrow> int list \<Rightarrow> error + real" where
  "get_length pr route =
     (if length route = 0 \<or> distances pr = None then Inr 0
      else
        (case distances pr of
           None \<Rightarrow> Inr 0
         | Some D \<Rightarrow>
             (case mat_pairs D (butlast route) (tl route) of
                Inl e \<Rightarrow> Inl e
              | Inr xs \<Rightarrow>
                  (case mat_get D (last route) (hd route) of
                     Inl e \<Rightarrow> Inl e
                   | Inr x \<Rightarrow> Inr (sum_list xs + x)))))"

section \<open>AntsColony/Ant.py\<close>

text \<open>
  An ant. Its nodes are Python integers; \<open>num_nodes\<close> is a count (the colony passes
  \<open>len(problem.nodes)\<close>).
\<close>

record ant =
  start_node :: int
  route :: "int list"
  visited :: "int set"
  total_distance :: real
  num_nodes :: nat
  alpha :: real
  beta :: real

definition Ant_init :: "int \<Rightarrow> nat \<Rightarrow> real \<Rightarrow> real \<Rightarrow> ant" where
  "Ant_init s n a b =
     \<lparr>start_node = s, route = [s], visited = {s}, total_distance = 0,
      num_nodes = n, alpha = a, beta = b\<rparr>"

definition reset :: "ant \<Rightarrow> ant" where
  "reset a = a\<lparr>route := [start_node a], visited := {start_node a}, total_distance := 0\<rparr>"

text \<open>
  \<open>x ** a\<close> for a float base and a finite exponent, where the result is a finite number:
  \<open>None\<close> stands for an infinite result (a zero base with a negative exponent, an
  infinite base with a positive one) and for NaN (a negative base with a fractional
  exponent, a NaN base with an exponent other than zero).
\<close>

fun np_power :: "float64 \<Rightarrow> real \<Rightarrow> real option" where
  "np_power (F x) a =
     (if a = 0 then Some 1
      else if 0 < x then Some (x powr a)
      else if x = 0 then (if 0 < a then Some 0 else None)
      else if a = of_int \<lfloor>a\<rfloor> then Some (x powi \<lfloor>a\<rfloor>)
      else None)"
| "np_power PosInf a = (if a = 0 then Some 1 else if a < 0 then Some 0 else None)"
| "np_power NegInf a = (if a = 0 then Some 1 else if a < 0 then Some 0 else None)"
| "np_power NaN a = (if a = 0 then Some 1 else None)"

text \<open>\<open>np.argmin\<close>: the index of the first occurrence of the minimum.\<close>

fun np_argmin :: "real list \<Rightarrow> nat" where
  "np_argmin [] = 0"
| "np_argmin [x] = 0"
| "np_argmin (x # y # ys) =
     (let k = np_argmin (y # ys) in if x \<le> (y # ys) ! k then 0 else Suc k)"

definition available_nodes :: "ant \<Rightarrow> int list" where
  "available_nodes a = filter (\<lambda>node. node \<notin> visited a) (map int [0..<num_nodes a])"

definition heuristic_values :: "ant \<Rightarrow> real list \<Rightarrow> real list" where
  "heuristic_values a distances_to_nodes =
     map (\<lambda>d. if 0 < d then (1 / d) powr beta a else 0) distances_to_nodes"

text \<open>
  The selection weights \<open>pheromone_levels ** alpha * heuristic_values\<close>; \<open>None\<close> when
  one of them is not a finite number.
\<close>

definition selection_weights :: "ant \<Rightarrow> float64 list \<Rightarrow> real list \<Rightarrow> real list option" where
  "selection_weights a pheromone_levels distances_to_nodes =
     map_option (\<lambda>pw. map (\<lambda>(x, h). x * h) (zip pw (heuristic_values a distances_to_nodes)))
       (those (map (\<lambda>x. np_power x (alpha a)) pheromone_levels))"

text \<open>
  \<open>Ant._choose_next_node\<close>. The random generator is explicit: \<open>choice g xs ps\<close> is
  \<open>np.random.choice(xs, p=ps)\<close> in the generator state g and returns the element drawn
  and the next state. \<open>np.random.choice\<close> raises ValueError on a probability that is
  negative or NaN, which is also where a weight that is not finite ends; \<open>np.argmin\<close>
  raises ValueError on an empty array.
\<close>

definition choose_next_node ::
  "('g \<Rightarrow> int list \<Rightarrow> real list \<Rightarrow> int \<times> 'g) \<Rightarrow> 'g \<Rightarrow> ant \<Rightarrow>
     real list list \<Rightarrow> float64 list list \<Rightarrow> (error + int) \<times> 'g" where
  "choose_next_node choice g a D P =
     (case route a of
        [] \<Rightarrow> (Inl IndexError, g)
      | _ # _ \<Rightarrow>
          (case mat_row P (last (route a)) (available_nodes a) of
             Inl e \<Rightarrow> (Inl e, g)
           | Inr pheromone_levels \<Rightarrow>
               (case mat_row D (last (route a)) (available_nodes a) of
                  Inl e \<Rightarrow> (Inl e, g)
                | Inr distances_to_nodes \<Rightarrow>
                    (case selection_weights a pheromone_levels distances_to_nodes of
                       None \<Rightarrow> (Inl ValueError, g)
                     | Some probabilities \<Rightarrow>
                         if sum_list probabilities = 0
                         then (if available_nodes a = [] then (Inl ValueError, g)
                               else (Inr (available_nodes a ! np_argmin distances_to_nodes), g))
                         else if list_ex (\<lambda>w. w / sum_list probabilities < 0) probabilities
                         then (Inl ValueError, g)
                         else (case choice g (available_nodes a)
                                      (map (\<lambda>w. w / sum_list probabilities) probabilities) of
                                 (node, g') \<Rightarrow> (Inr node, g'))))))"

text \<open>
  The body of the loop of \<open>Ant.find_route\<close>: the ant as the body leaves it, the
  generator state, and the exception raised, if any.
\<close>

definition visit_next ::
  "('g \<Rightarrow> int list \<Rightarrow> real list \<Rightarrow> int \<times> 'g) \<Rightarrow> 'g \<Rightarrow> ant \<Rightarrow>
     real list list \<Rightarrow> float64 list list \<Rightarrow> (ant \<times> 'g) \<times> error option" where
  "visit_next choice g a D P =
     (case choose_next_node choice g a D P of
        (Inl e, g') \<Rightarrow> ((a, g'), Some e)
      | (Inr next_node, g') \<Rightarrow>
          (case mat_get D (last (route a)) next_node of
             Inl e \<Rightarrow>
               ((a\<lparr>route := route a @ [next_node],
                   visited := insert next_node (visited a)\<rparr>, g'), Some e)
           | Inr x \<Rightarrow>
               ((a\<lparr>route := route a @ [next_node],
                   visited := insert next_node (visited a),
                   total_distance := total_distance a + x\<rparr>, g'), None)))"

lemma visit_next_measure:
  "visit_next choice g a D P = ((a', g'), None) \<Longrightarrow>
     length (route a') = Suc (length (route a)) \<and> num_nodes a' = num_nodes a"
  by (auto simp: visit_next_def split: prod.splits sum.splits)

function visit_all ::
  "('g \<Rightarrow> int list \<Rightarrow> real list \<Rightarrow> int \<times> 'g) \<Rightarrow> 'g \<Rightarrow> ant \<Rightarrow>
     real list list \<Rightarrow> float64 list list \<Rightarrow> (ant \<times> 'g) \<times> error option" where
  "visit_all choice g a D P =
     (if length (route a) < num_nodes a
      then (case visit_next choice g a D P of
              ((a', g'), Some e) \<Rightarrow> ((a', g'), Some e)
            | ((a', g'), None) \<Rightarrow> visit_all choice g' a' D P)
      else ((a, g), None))"
  by pat_completeness auto
termination
proof (relation "measure (\<lambda>(choice, g, a, D, P). num_nodes a - length (route a))", goal_cases)
  case 1
  show ?case by simp
next
  case (2 choice g a D P x y a' g')
  then have "visit_next choice g a D P = ((a', g'), None)"
    by simp
  from visit_next_measure [OF this] 2(1) show ?case
    by simp
qed

text \<open>\<open>Ant.find_route\<close>.\<close>

definition find_route ::
  "('g \<Rightarrow> int list \<Rightarrow> real list \<Rightarrow> int \<times> 'g) \<Rightarrow> 'g \<Rightarrow> ant \<Rightarrow>
     real list list \<Rightarrow> float64 list list \<Rightarrow> (ant \<times> 'g) \<times> error option" where
  "find_route choice g a D P =
     (case visit_all choice g (reset a) D P of
        ((a1, g1), Some e) \<Rightarrow> ((a1, g1), Some e)
      | ((a1, g1), None) \<Rightarrow>
          (case route a1 of
             [] \<Rightarrow> ((a1\<lparr>route := [start_node a1]\<rparr>, g1), Some IndexError)
           | _ # _ \<Rightarrow>
               (case mat_get D (last (route a1)) (start_node a1) of
                  Inl e \<Rightarrow> ((a1\<lparr>route := route a1 @ [start_node a1]\<rparr>, g1), Some e)
                | Inr x \<Rightarrow>
                    ((a1\<lparr>route := route a1 @ [start_node a1],
                         total_distance := total_distance a1 + x\<rparr>, g1), None))))"

section \<open>AntsColony/Colony.py\<close>

text \<open>
  A best length is a float that starts as \<open>float('inf')\<close>: a real number or the
  infinity, with Python's comparisons.
\<close>

datatype pyfloat = Fin real | PInf

fun pf_less :: "pyfloat \<Rightarrow> pyfloat \<Rightarrow> bool" where
  "pf_less (Fin x) (Fin y) = (x < y)"
| "pf_less (Fin x) PInf = True"
| "pf_less PInf y = False"

fun pf_le :: "pyfloat \<Rightarrow> pyfloat \<Rightarrow> bool" where
  "pf_le (Fin x) (Fin y) = (x \<le> y)"
| "pf_le x PInf = True"
| "pf_le PInf (Fin y) = False"

text \<open>
  The colony. The wall-clock fields (\<open>_start_time\<close>, \<open>total_time_ms\<close>,
  \<open>best_iteration_time_ms\<close> and the times of a history record) are left out: a history
  record is the iteration number and the best length.
\<close>

record colony =
  c_problem :: problem
  c_num_nodes :: nat
  pheromones :: pheromone
  ants :: "ant list"
  best_route :: "int list"
  best_length :: pyfloat
  best_iteration :: nat
  current_iteration :: nat
  iteration_history :: "(nat \<times> pyfloat) list"

text \<open>
  The list comprehension \<open>[Ant(random.randint(0, n - 1), n, alpha, beta) for _ in range(k)]\<close>;
  \<open>randint g lo hi\<close> is \<open>random.randint(lo, hi)\<close> in the generator state g, which raises
  ValueError on the empty range of \<open>n = 0\<close>.
\<close>

fun make_ants ::
  "('g \<Rightarrow> int \<Rightarrow> int \<Rightarrow> int \<times> 'g) \<Rightarrow> 'g \<Rightarrow> nat \<Rightarrow> nat \<Rightarrow> real \<Rightarrow> real \<Rightarrow> (error + ant list) \<times> 'g" where
  "make_ants randint g 0 n a b = (Inr [], g)"
| "make_ants randint g (Suc k) n a b =
     (if n = 0 then (Inl ValueError, g)
      else
        (case randint g 0 (int n - 1) of
           (s, g1) \<Rightarrow>
             (case make_ants randint g1 k n a b of
                (Inl e, g2) \<Rightarrow> (Inl e, g2)
              | (Inr as, g2) \<Rightarrow> (Inr (Ant_init s n a b # as), g2))))"

text \<open>
  \<open>Colony.__init__\<close>: \<open>len(problem.nodes)\<close> raises TypeError when the nodes are
  \<open>None\<close>; \<open>range(problem.num_ants)\<close> is empty for an ant count below 1.
\<close>

definition Colony_init ::
  "('g \<Rightarrow> int \<Rightarrow> int \<Rightarrow> int \<times> 'g) \<Rightarrow> 'g \<Rightarrow> problem \<Rightarrow> (error + colony) \<times> 'g" where
  "Colony_init randint g pr =
     (case nodes pr of
        None \<Rightarrow> (Inl TypeError, g)
      | Some ns \<Rightarrow>
          (case make_ants randint g (nat (num_ants pr)) (length ns) (p_alpha pr) (p_beta pr) of
             (Inl e, g1) \<Rightarrow> (Inl e, g1)
           | (Inr as, g1) \<Rightarrow>
               (Inr \<lparr>c_problem = pr,
                     c_num_nodes = length ns,
                     pheromones =
                       Pheromone_init (length ns) (p_evaporation_rate pr) (pheromone_rate pr),
                     ants = as,
                     best_route = map int [0..<length ns],
                     best_length = PInf,
                     best_iteration = 0,
                     current_iteration = 0,
                     iteration_history = []\<rparr>, g1)))"

text \<open>
  The first loop of \<open>Colony._perform_iteration\<close>, over the positions of the ants. A
  colony built by \<open>Colony.__init__\<close> has a distance matrix; without one the first
  subscript of \<open>None\<close> raises TypeError.
\<close>

fun ants_find_routes ::
  "('g \<Rightarrow> int list \<Rightarrow> real list \<Rightarrow> int \<times> 'g) \<Rightarrow> 'g \<Rightarrow> colony \<Rightarrow> nat list \<Rightarrow>
     (colony \<times> 'g) \<times> error option" where
  "ants_find_routes choice g c [] = ((c, g), None)"
| "ants_find_routes choice g c (k # ks) =
     (case distances (c_problem c) of
        None \<Rightarrow> ((c, g), Some TypeError)
      | Some D \<Rightarrow>
          (case find_route choice g (ants c ! k) D (trails (pheromones c)) of
             ((a, g1), Some e) \<Rightarrow> ((c\<lparr>ants := (ants c)[k := a]\<rparr>, g1), Some e)
           | ((a, g1), None) \<Rightarrow>
               (case get_length (c_problem c) (route a) of
                  Inl e \<Rightarrow> ((c\<lparr>ants := (ants c)[k := a]\<rparr>, g1), Some e)
                | Inr route_length \<Rightarrow>
                    ants_find_routes choice g1
                      (if pf_less (Fin route_length) (best_length c)
                       then c\<lparr>ants := (ants c)[k := a],
                              best_length := Fin route_length,
                              best_route := route a,
                              best_iteration := current_iteration c\<rparr>
                       else c\<lparr>ants := (ants c)[k := a]\<rparr>)
                      ks)))"

text \<open>
  The loop \<open>for ant in top_ants: self.pheromones.deposit(ant.route, ant.total_distance)\<close>.
  The length is the ant's \<open>total_distance\<close>, a NumPy scalar: a total distance of
  zero raises nothing and deposits an infinity.
\<close>

fun deposit_all :: "pheromone \<Rightarrow> ant list \<Rightarrow> pheromone \<times> error option" where
  "deposit_all p [] = (p, None)"
| "deposit_all p (a # as) =
     (case deposit p (route a) (Np (total_distance a)) None of
        (p1, Some e) \<Rightarrow> (p1, Some e)
      | (p1, None) \<Rightarrow> deposit_all p1 as)"

text \<open>\<open>Colony._update_pheromones\<close>; \<open>sorted\<close> is stable, as \<open>sort_key\<close> is.\<close>

definition update_pheromones :: "colony \<Rightarrow> colony \<times> error option" where
  "update_pheromones c =
     (case deposit_all (evaporate (pheromones c) None)
             (take 5 (sort_key total_distance (ants c))) of
        (p, err) \<Rightarrow> (c\<lparr>pheromones := p\<rparr>, err))"

definition perform_iteration ::
  "('g \<Rightarrow> int list \<Rightarrow> real list \<Rightarrow> int \<times> 'g) \<Rightarrow> 'g \<Rightarrow> colony \<Rightarrow> (colony \<times> 'g) \<times> error option" where
  "perform_iteration choice g c =
     (case ants_find_routes choice g c [0..<length (ants c)] of
        ((c1, g1), Some e) \<Rightarrow> ((c1, g1), Some e)
      | ((c1, g1), None) \<Rightarrow>
          (case update_pheromones c1 of
             (c2, Some e) \<Rightarrow> ((c2, g1), Some e)
           | (c2, None) \<Rightarrow> ((c2\<lparr>ants := map reset (ants c2)\<rparr>, g1), None)))"

definition prepare_iteration :: "colony \<Rightarrow> colony" where
  "prepare_iteration c = c\<lparr>current_iteration := current_iteration c + 1\<rparr>"

definition finalize_iteration :: "colony \<Rightarrow> colony" where
  "finalize_iteration c =
     c\<lparr>iteration_history := iteration_history c @ [(current_iteration c, best_length c)]\<rparr>"

text \<open>
  \<open>Colony.run_iteration\<close>: the colony the call leaves behind, the generator state, and the
  exception raised, if any; without one the call returns
  \<open>(best_route, best_length)\<close> of that colony.
\<close>

definition run_iteration ::
  "('g \<Rightarrow> int list \<Rightarrow> real list \<Rightarrow> int \<times> 'g) \<Rightarrow> 'g \<Rightarrow> colony \<Rightarrow> (colony \<times> 'g) \<times> error option" where
  "run_iteration choice g c =
     (case perform_iteration choice g (prepare_iteration c) of
        ((c1, g1), Some e) \<Rightarrow> ((c1, g1), Some e)
      | ((c1, g1), None) \<Rightarrow> ((finalize_iteration c1, g1), None))"

section \<open>AntsColony/Optimization.py\<close>

record optimization =
  num_iterations :: int
  o_colony :: colony
  o_best_route :: "int list option"
  o_best_length :: pyfloat
  o_iteration_history :: "(nat \<times> int list option \<times> pyfloat) list"

definition Optimization_init ::
  "('g \<Rightarrow> int \<Rightarrow> int \<Rightarrow> int \<times> 'g) \<Rightarrow> 'g \<Rightarrow> problem \<Rightarrow> int \<Rightarrow> (error + optimization) \<times> 'g" where
  "Optimization_init randint g pr n =
     (case Colony_init randint g pr of
        (Inl e, g1) \<Rightarrow> (Inl e, g1)
      | (Inr c, g1) \<Rightarrow>
          (Inr \<lparr>num_iterations = n, o_colony = c, o_best_route = None,
                o_best_length = PInf, o_iteration_history = []\<rparr>, g1))"

text \<open>
  The body of the loop of \<open>Optimization.optimize\<close> for the iteration number given, called
  without a callback.
\<close>

definition optimize_iteration ::
  "('g \<Rightarrow> int list \<Rightarrow> real list \<Rightarrow> int \<times> 'g) \<Rightarrow> 'g \<Rightarrow> optimization \<Rightarrow> nat \<Rightarrow>
     (optimization \<times> 'g) \<times> error option" where
  "optimize_iteration choice g opt iteration =
     (case run_iteration choice g (o_colony opt) of
        ((c, g1), Some e) \<Rightarrow> ((opt\<lparr>o_colony := c\<rparr>, g1), Some e)
      | ((c, g1), None) \<Rightarrow>
          (if pf_less (best_length c) (o_best_length opt)
           then ((opt\<lparr>o_colony := c,
                      o_best_length := best_length c,
                      o_best_route := Some (best_route c),
                      o_iteration_history :=
                        o_iteration_history opt @ [(iteration, Some (best_route c), best_length c)]\<rparr>,
                  g1), None)
           else ((opt\<lparr>o_colony := c,
                      o_iteration_history :=
                        o_iteration_history opt @ [(iteration, o_best_route opt, o_best_length opt)]\<rparr>,
                  g1), None)))"

fun optimize_loop ::
  "('g \<Rightarrow> int list \<Rightarrow> real list \<Rightarrow> int \<times> 'g) \<Rightarrow> 'g \<Rightarrow> optimization \<Rightarrow> nat list \<Rightarrow>
     (optimization \<times> 'g) \<times> error option" where
  "optimize_loop choice g opt [] = ((opt, g), None)"
| "optimize_loop choice g opt (iteration # its) =
     (case optimize_iteration choice g opt iteration of
        ((opt1, g1), Some e) \<Rightarrow> ((opt1, g1), Some e)
      | ((opt1, g1), None) \<Rightarrow> optimize_loop choice g1 opt1 its)"

text \<open>\<open>Optimization.optimize\<close>: the iterations \<open>range(1, num_iterations + 1)\<close>.\<close>

definition optimize ::
  "('g \<Rightarrow> int list \<Rightarrow> real list \<Rightarrow> int \<times> 'g) \<Rightarrow> 'g \<Rightarrow> optimization \<Rightarrow>
     (optimization \<times> 'g) \<times> error option" where
  "optimize choice g opt = optimize_loop choice g opt [1..<nat (num_iterations opt) + 1]"

text \<open>A list of lengths in which no entry is above the one before it.\<close>

fun nonincreasing :: "pyfloat list \<Rightarrow> bool" where
  "nonincreasing (x # y # ys) = (pf_le y x \<and> nonincreasing (y # ys))"
| "nonincreasing [x] = True"
| "nonincreasing [] = True"

section \<open>Shape of a matrix\<close>

definition square :: "nat \<Rightarrow> 'a list list \<Rightarrow> bool" where
  "square n m = (length m = n \<and> list_all (\<lambda>row. length row = n) m)"

lemma square_nth: "square n m \<Longrightarrow> r < n \<Longrightarrow> length (m ! r) = n"
  by (simp add: square_def list_all_length)

lemma square_length: "square n m \<Longrightarrow> length m = n"
  by (simp add: square_def)

lemma py_index_less: "py_index n i = Some r \<Longrightarrow> r < n"
  by (auto simp: py_index_def split: if_splits)

lemma mat_add_square:
  assumes "square n m" and "mat_add m i j d = Inr m'"
  shows "square n m'"
proof -
  from assms(2) obtain r c where r: "py_index (length m) i = Some r"
    and m': "m' = m[r := (m ! r)[c := fadd (m ! r ! c) d]]"
    by (auto simp: mat_add_def split: option.splits)
  from assms(1) have "length m' = n"
    by (simp add: m' square_def)
  moreover have "length (m' ! k) = n" if "k < n" for k
    using that assms(1) square_nth [OF assms(1), of k]
    by (cases "k = r") (simp_all add: m' square_def)
  ultimately show ?thesis
    by (simp add: square_def list_all_length)
qed

lemma mat_add_valid:
  assumes "square n m" and "py_index n i = Some r" and "py_index n j = Some c"
  shows "mat_add m i j d = Inr (m[r := (m ! r)[c := fadd (m ! r ! c) d]])"
  using assms square_nth [OF assms(1) py_index_less [OF assms(2)]]
  by (simp add: mat_add_def square_def)

lemma mat_add_invalid:
  assumes "square n m" and "py_index n i = None \<or> py_index n j = None"
  shows "mat_add m i j d = Inl IndexError"
proof (cases "py_index n i")
  case None
  with assms(1) show ?thesis by (simp add: mat_add_def square_def)
next
  case (Some r)
  with assms(2) have "py_index n j = None" by simp
  with Some assms(1) square_nth [OF assms(1) py_index_less [OF Some]] show ?thesis
    by (simp add: mat_add_def square_def)
qed

lemma mat_get_valid:
  assumes "square n m" and "py_index n i = Some r" and "py_index n j = Some c"
  shows "mat_get m i j = Inr (m ! r ! c)"
  using assms square_nth [OF assms(1) py_index_less [OF assms(2)]]
  by (simp add: mat_get_def square_def)

lemma mat_get_invalid:
  assumes "square n m" and "py_index n i = None \<or> py_index n j = None"
  shows "mat_get m i j = Inl IndexError"
proof (cases "py_index n i")
  case None
  with assms(1) show ?thesis by (simp add: mat_get_def square_def)
next
  case (Some r)
  with assms(2) have "py_index n j = None" by simp
  with Some assms(1) square_nth [OF assms(1) py_index_less [OF Some]] show ?thesis
    by (simp add: mat_get_def square_def)
qed

section \<open>What a deposit adds\<close>

text \<open>
  How often a deposit of the edges es adds to the entry (a, b) of an n by n matrix: once for
  every edge that is (a, b) after Python's index wrap-around, and once for every edge that
  is (b, a).
\<close>

fun hits :: "nat \<Rightarrow> (int \<times> int) list \<Rightarrow> nat \<Rightarrow> nat \<Rightarrow> nat" where
  "hits n [] a b = 0"
| "hits n ((i, j) # es) a b =
     (if py_index n i = Some a \<and> py_index n j = Some b then 1 else 0) +
     (if py_index n j = Some a \<and> py_index n i = Some b then 1 else 0) +
     hits n es a b"

definition route_edges :: "int list \<Rightarrow> (int \<times> int) list" where
  "route_edges r =
     zip (butlast r) (tl r) @ (if r \<noteq> [] \<and> hd r \<noteq> last r then [(last r, hd r)] else [])"

lemma hits_append: "hits n (es @ fs) a b = hits n es a b + hits n fs a b"
  by (induction es) auto

lemma two_flags_swap:
  "(if A \<and> B then 1 else 0) + (if C \<and> D then 1 else 0) + (0::nat)
     = (if D \<and> C then 1 else 0) + (if B \<and> A then 1 else 0) + 0"
  by (cases A; cases B; cases C; cases D) simp_all

lemma hits_sym: "hits n es a b = hits n es b a"
proof (induction es)
  case Nil
  show ?case by simp
next
  case (Cons e es)
  obtain i j where e: "e = (i, j)" by (cases e)
  have "hits n [(i, j)] a b = hits n [(i, j)] b a"
    unfolding hits.simps by (rule two_flags_swap)
  moreover have "hits n (e # es) a b = hits n [(i, j)] a b + hits n es a b"
    and "hits n (e # es) b a = hits n [(i, j)] b a + hits n es b a"
    by (simp_all add: e)
  ultimately show ?case
    by (simp only: Cons.IH)
qed

lemma entry_after_add:
  assumes "square n m" and "r < n" and "c < n" and "a < n" and "b < n"
  shows "m[r := (m ! r)[c := fadd (m ! r ! c) d]] ! a ! b
           = (if a = r \<and> b = c then fadd (m ! a ! b) d else m ! a ! b)"
proof (cases "a = r")
  case False
  then show ?thesis by simp
next
  case True
  have lm: "r < length m" and lr: "c < length (m ! r)"
    using assms(2,3) square_length [OF assms(1)] square_nth [OF assms(1) assms(2)] by simp_all
  have "m[r := (m ! r)[c := fadd (m ! r ! c) d]] ! r = (m ! r)[c := fadd (m ! r ! c) d]"
    using lm by simp
  then show ?thesis
    using True lr by (cases "b = c") simp_all
qed

lemma deposit_edge_hits:
  assumes sq: "square n m" and i: "py_index n i \<noteq> None" and j: "py_index n j \<noteq> None"
  shows "\<exists>m'. deposit_edge m i j d = (m', None) \<and> square n m' \<and>
           (\<forall>a<n. \<forall>b<n. m' ! a ! b = ((\<lambda>x. fadd x d) ^^ hits n [(i, j)] a b) (m ! a ! b))"
proof -
  from i j obtain r c where r: "py_index n i = Some r" and c: "py_index n j = Some c"
    by auto
  define m1 where "m1 = m[r := (m ! r)[c := fadd (m ! r ! c) d]]"
  define m2 where "m2 = m1[c := (m1 ! c)[r := fadd (m1 ! c ! r) d]]"
  have rn: "r < n" and cn: "c < n"
    using r c by (auto dest: py_index_less)
  have 1: "mat_add m i j d = Inr m1"
    unfolding m1_def by (rule mat_add_valid [OF sq r c])
  have sq1: "square n m1"
    by (rule mat_add_square [OF sq 1])
  have 2: "mat_add m1 j i d = Inr m2"
    unfolding m2_def by (rule mat_add_valid [OF sq1 c r])
  have sq2: "square n m2"
    by (rule mat_add_square [OF sq1 2])
  have e: "deposit_edge m i j d = (m2, None)"
    by (simp add: deposit_edge_def 1 2)
  have "m2 ! a ! b = ((\<lambda>x. fadd x d) ^^ hits n [(i, j)] a b) (m ! a ! b)"
    if "a < n" "b < n" for a b
  proof -
    have e1: "m1 ! a ! b = (if a = r \<and> b = c then fadd (m ! a ! b) d else m ! a ! b)"
      unfolding m1_def by (rule entry_after_add [OF sq rn cn that])
    have e2: "m2 ! a ! b = (if a = c \<and> b = r then fadd (m1 ! a ! b) d else m1 ! a ! b)"
      unfolding m2_def by (rule entry_after_add [OF sq1 cn rn that])
    show ?thesis
      using e1 e2
      by (cases "a = r"; cases "b = c"; cases "a = c"; cases "b = r") (simp_all add: r c)
  qed
  with e sq2 show ?thesis by blast
qed

lemma deposit_edge_invalid:
  assumes "square n m" and "py_index n i = None \<or> py_index n j = None"
  shows "deposit_edge m i j d = (m, Some IndexError)"
  by (simp add: deposit_edge_def mat_add_invalid [OF assms, of d])

lemma deposit_edges_hits:
  assumes "square n m" and "\<forall>(i, j) \<in> set es. py_index n i \<noteq> None \<and> py_index n j \<noteq> None"
  shows "\<exists>m'. deposit_edges m es d = (m', None) \<and> square n m' \<and>
           (\<forall>a<n. \<forall>b<n. m' ! a ! b = ((\<lambda>x. fadd x d) ^^ hits n es a b) (m ! a ! b))"
  using assms
proof (induction es arbitrary: m)
  case Nil
  then show ?case by simp
next
  case (Cons e es)
  obtain i j where ij: "e = (i, j)" by (cases e)
  from Cons.prems(2) ij have vi: "py_index n i \<noteq> None" and vj: "py_index n j \<noteq> None"
    and rest: "\<forall>(i, j) \<in> set es. py_index n i \<noteq> None \<and> py_index n j \<noteq> None"
    by auto
  from deposit_edge_hits [OF Cons.prems(1) vi vj, of d] obtain m1 where
    e1: "deposit_edge m i j d = (m1, None)" and sq1: "square n m1" and
    v1: "\<And>a b. a < n \<Longrightarrow> b < n \<Longrightarrow>
           m1 ! a ! b = ((\<lambda>x. fadd x d) ^^ hits n [(i, j)] a b) (m ! a ! b)"
    by blast
  from Cons.IH [OF sq1 rest] obtain m' where
    e2: "deposit_edges m1 es d = (m', None)" and sq': "square n m'" and
    v2: "\<And>a b. a < n \<Longrightarrow> b < n \<Longrightarrow>
           m' ! a ! b = ((\<lambda>x. fadd x d) ^^ hits n es a b) (m1 ! a ! b)"
    by blast
  have "m' ! a ! b = ((\<lambda>x. fadd x d) ^^ hits n (e # es) a b) (m ! a ! b)"
    if "a < n" "b < n" for a b
  proof -
    have "hits n (e # es) a b = hits n es a b + hits n [(i, j)] a b"
      by (simp add: ij)
    then show ?thesis
      by (simp only: funpow_add o_apply v1 [OF that] v2 [OF that])
  qed
  with e1 e2 sq' ij show ?case
    by auto
qed

lemma deposit_adds_to_route_edges:
  assumes sq: "square n (trails p)"
    and valid: "\<forall>i \<in> set rt. py_index n i \<noteq> None"
    and ne: "rt \<noteq> []" and amount: "amount \<noteq> 0" and d: "py_divide amount len = Inr d"
  shows "\<exists>m'. deposit p rt len (Some amount) = (p\<lparr>trails := m'\<rparr>, None) \<and> square n m' \<and>
           (\<forall>a<n. \<forall>b<n.
              m' ! a ! b = ((\<lambda>x. fadd x d) ^^ hits n (route_edges rt) a b) (trails p ! a ! b))"
proof -
  have d': "py_divide (py_or (Some amount) (pheromone_deposit p)) len = Inr d"
    using amount d by (simp add: py_or_def)
  have "py_index n i \<noteq> None \<and> py_index n j \<noteq> None"
    if "(i, j) \<in> set (zip (butlast rt) (tl rt))" for i j
  proof -
    from that have "i \<in> set (butlast rt)" and "j \<in> set (tl rt)"
      by (auto dest: set_zip_leftD set_zip_rightD)
    with ne have "i \<in> set rt" and "j \<in> set rt"
      by (auto dest: in_set_butlastD list.set_sel(2))
    with valid show ?thesis by blast
  qed
  then have "\<forall>(i, j) \<in> set (zip (butlast rt) (tl rt)).
               py_index n i \<noteq> None \<and> py_index n j \<noteq> None"
    by blast
  from deposit_edges_hits [OF sq this, of d] obtain m1 where
    e1: "deposit_edges (trails p) (zip (butlast rt) (tl rt)) d = (m1, None)" and
    sq1: "square n m1" and
    v1: "\<And>a b. a < n \<Longrightarrow> b < n \<Longrightarrow>
           m1 ! a ! b = ((\<lambda>x. fadd x d) ^^ hits n (zip (butlast rt) (tl rt)) a b) (trails p ! a ! b)"
    by blast
  show ?thesis
  proof (cases "hd rt = last rt")
    case True
    with ne have "route_edges rt = zip (butlast rt) (tl rt)"
      by (simp add: route_edges_def)
    with e1 sq1 v1 ne True d' show ?thesis
      by (cases rt) (auto simp: deposit_def)
  next
    case False
    from valid ne have "py_index n (last rt) \<noteq> None" and "py_index n (hd rt) \<noteq> None"
      by simp_all
    from deposit_edge_hits [OF sq1 this, of d] obtain m2 where
      e2: "deposit_edge m1 (last rt) (hd rt) d = (m2, None)" and sq2: "square n m2" and
      v2: "\<And>a b. a < n \<Longrightarrow> b < n \<Longrightarrow>
             m2 ! a ! b = ((\<lambda>x. fadd x d) ^^ hits n [(last rt, hd rt)] a b) (m1 ! a ! b)"
      by blast
    from ne False have re: "route_edges rt = zip (butlast rt) (tl rt) @ [(last rt, hd rt)]"
      by (simp add: route_edges_def)
    have "m2 ! a ! b = ((\<lambda>x. fadd x d) ^^ hits n (route_edges rt) a b) (trails p ! a ! b)"
      if "a < n" "b < n" for a b
    proof -
      have "hits n (route_edges rt) a b =
              hits n [(last rt, hd rt)] a b + hits n (zip (butlast rt) (tl rt)) a b"
        by (simp add: re hits_append)
      then show ?thesis
        by (simp only: funpow_add o_apply v1 [OF that] v2 [OF that])
    qed
    moreover from e1 e2 ne False d'
    have "deposit p rt len (Some amount) = (p\<lparr>trails := m2\<rparr>, None)"
      by (cases rt) (auto simp: deposit_def)
    ultimately show ?thesis
      using sq2 by auto
  qed
qed

lemma deposit_scenario:
  "deposit (Pheromone_init 3 (1 / 2) 100) [0, 1, 2, 0] (Py 3) (Some 1)
     = (\<lparr>trails = [[F (1 / 10), F (1 / 10 + 1 / 3), F (1 / 10 + 1 / 3)],
                    [F (1 / 10 + 1 / 3), F (1 / 10), F (1 / 10 + 1 / 3)],
                    [F (1 / 10 + 1 / 3), F (1 / 10 + 1 / 3), F (1 / 10)]],
         evaporation_rate = 1 / 2, pheromone_deposit = 100\<rparr>, None)"
  by (simp add: deposit_def deposit_edge_def mat_add_def py_index_def py_or_def
      Pheromone_init_def np_clip_def numeral_3_eq_3)






section \<open>Symmetry of the pheromone matrix\<close>

text \<open>The invariant of the field: an n by n matrix that equals its transpose.\<close>

definition sym_square :: "nat \<Rightarrow> float64 list list \<Rightarrow> bool" where
  "sym_square n m = (square n m \<and> (\<forall>a<n. \<forall>b<n. m ! a ! b = m ! b ! a))"

lemma deposit_edge_sym:
  assumes "sym_square n m"
  shows "sym_square n (fst (deposit_edge m i j d))"
proof (cases "py_index n i = None \<or> py_index n j = None")
  case True
  from assms have sq: "square n m" by (simp add: sym_square_def)
  from assms show ?thesis
    by (simp add: deposit_edge_invalid [OF sq True])
next
  case False
  then have vi: "py_index n i \<noteq> None" and vj: "py_index n j \<noteq> None"
    by simp_all
  from assms have sq: "square n m" and sy: "\<And>a b. a < n \<Longrightarrow> b < n \<Longrightarrow> m ! a ! b = m ! b ! a"
    by (simp_all add: sym_square_def)
  from deposit_edge_hits [OF sq vi vj, of d] obtain m' where
    e: "deposit_edge m i j d = (m', None)" and sq': "square n m'" and
    v: "\<And>a b. a < n \<Longrightarrow> b < n \<Longrightarrow>
          m' ! a ! b = ((\<lambda>x. fadd x d) ^^ hits n [(i, j)] a b) (m ! a ! b)"
    by blast
  have "m' ! a ! b = m' ! b ! a" if "a < n" "b < n" for a b
    by (simp only: v [OF that] v [OF that(2) that(1)] sy [OF that] hits_sym [of n _ a b])
  with e sq' show ?thesis
    by (simp add: sym_square_def)
qed

lemma deposit_edges_sym:
  "sym_square n m \<Longrightarrow> sym_square n (fst (deposit_edges m es d))"
proof (induction es arbitrary: m)
  case Nil
  then show ?case by simp
next
  case (Cons e es)
  obtain i j where ij: "e = (i, j)" by (cases e)
  obtain m1 err where d1: "deposit_edge m i j d = (m1, err)" by (cases "deposit_edge m i j d")
  from deposit_edge_sym [OF Cons.prems, of i j d] d1 have s1: "sym_square n m1" by simp
  show ?case
  proof (cases err)
    case None
    with d1 ij Cons.IH [OF s1] show ?thesis by simp
  next
    case (Some x)
    with d1 ij s1 show ?thesis by simp
  qed
qed

lemma deposit_sym:
  assumes "sym_square n (trails p)"
  shows "sym_square n (trails (fst (deposit p rt len amount)))"
proof (cases "py_divide (py_or amount (pheromone_deposit p)) len")
  case (Inl e)
  with assms show ?thesis by (simp add: deposit_def)
next
  case (Inr d)
  obtain m err where de: "deposit_edges (trails p) (zip (butlast rt) (tl rt)) d = (m, err)"
    by (cases "deposit_edges (trails p) (zip (butlast rt) (tl rt)) d")
  from deposit_edges_sym [OF assms, of "zip (butlast rt) (tl rt)" d] de
  have sm: "sym_square n m" by simp
  obtain m' err' where cl: "deposit_edge m (last rt) (hd rt) d = (m', err')"
    by (cases "deposit_edge m (last rt) (hd rt) d")
  from deposit_edge_sym [OF sm, of "last rt" "hd rt" d] cl
  have sm': "sym_square n m'" by simp
  from Inr de cl sm sm' show ?thesis
    by (cases err; cases rt) (simp_all add: deposit_def)
qed

lemma evaporate_sym:
  assumes "sym_square n (trails p)"
  shows "sym_square n (trails (evaporate p rate))"
proof -
  from assms have sq: "square n (trails p)"
    and sy: "\<And>a b. a < n \<Longrightarrow> b < n \<Longrightarrow> trails p ! a ! b = trails p ! b ! a"
    by (simp_all add: sym_square_def)
  define r where "r = (case rate of Some x \<Rightarrow> np_clip x 0 1 | None \<Rightarrow> evaporation_rate p)"
  define t where "t = map (map (\<lambda>x. fmul x (F (1 - r)))) (trails p)"
  have t: "trails (evaporate p rate) = t"
    by (simp add: evaporate_def r_def t_def Let_def)
  have "square n t"
    using sq by (simp add: square_def list_all_length t_def)
  moreover have "t ! a ! b = t ! b ! a" if "a < n" "b < n" for a b
    using that sy [OF that] square_nth [OF sq that(1)] square_nth [OF sq that(2)]
      square_length [OF sq]
    by (simp add: t_def)
  ultimately show ?thesis
    by (simp add: t sym_square_def)
qed

lemma init_sym: "sym_square n (trails (Pheromone_init n rate dep))"
  by (simp add: Pheromone_init_def sym_square_def square_def list_all_length)

lemma call_sym: "sym_square n (trails p) \<Longrightarrow> sym_square n (trails (call p c))"
  by (cases c) (simp_all add: evaporate_sym deposit_sym)

lemma run_calls_sym: "sym_square n (trails p) \<Longrightarrow> sym_square n (trails (run_calls p cs))"
  unfolding run_calls_def
  by (induction cs arbitrary: p) (simp_all add: call_sym)

lemma sym_square_mat_get:
  assumes "sym_square n m"
  shows "mat_get m i j = mat_get m j i"
proof (cases "py_index n i = None \<or> py_index n j = None")
  case True
  from assms have sq: "square n m" by (simp add: sym_square_def)
  from True have swapped: "py_index n j = None \<or> py_index n i = None" by auto
  from mat_get_invalid [OF sq True] mat_get_invalid [OF sq swapped] show ?thesis by simp
next
  case False
  then obtain r c where r: "py_index n i = Some r" and c: "py_index n j = Some c"
    by auto
  from assms have sq: "square n m" and sy: "m ! r ! c = m ! c ! r"
    using py_index_less [OF r] py_index_less [OF c] by (simp_all add: sym_square_def)
  show ?thesis
    by (simp add: mat_get_valid [OF sq r c] mat_get_valid [OF sq c r] sy)
qed

lemma np_eq_same: "x \<noteq> NaN \<Longrightarrow> np_eq x x"
  by (cases x) simp_all

section \<open>Claims about the pheromone field\<close>




text \<open>
  C4 at the failing input. For an amount other than zero the code does what the claim says
  (\<open>deposit_adds_to_route_edges\<close>, and \<open>deposit_scenario\<close> for the scenario of the
  spec). An amount of \<open>0.0\<close> supplied by the caller is falsy, so
  \<open>pheromone_deposit or self.pheromone_deposit\<close> takes the field's default: on the initial
  3-node field with default 100, \<open>deposit(route=[0,1,2,0], length=3.0, pheromone_deposit=0.0)\<close>
  adds \<open>100/3\<close> to the entries of the three edges instead of \<open>0/3 = 0\<close>.
\<close>

theorem deposit_amount_zero_takes_default:
  "deposit (Pheromone_init 3 (1 / 2) 100) [0, 1, 2, 0] (Py 3) (Some 0)
     = (\<lparr>trails = [[F (1 / 10), F (1 / 10 + 100 / 3), F (1 / 10 + 100 / 3)],
                    [F (1 / 10 + 100 / 3), F (1 / 10), F (1 / 10 + 100 / 3)],
                    [F (1 / 10 + 100 / 3), F (1 / 10 + 100 / 3), F (1 / 10)]],
         evaporation_rate = 1 / 2, pheromone_deposit = 100\<rparr>, None)"
  by (simp add: deposit_def deposit_edge_def mat_add_def py_index_def py_or_def
      Pheromone_init_def np_clip_def numeral_3_eq_3)

text \<open>
  C5 (as the code has it). Starting from the uniform matrix of \<open>Pheromone.__init__\<close>,
  after any sequence of \<open>evaporate\<close> and \<open>deposit\<close> calls (with any arguments, and whether
  or not a call raised) the matrix is still n by n and \<open>trails[i, j]\<close> and
  \<open>trails[j, i]\<close> hold the same float, for all Python indices i and j (both reads raise
  IndexError when one does). The two therefore compare equal unless they are NaN.
\<close>

theorem pheromone_mirrored_entries_are_the_same_float:
  "square n (trails (run_calls (Pheromone_init n rate dep) cs)) \<and>
   mat_get (trails (run_calls (Pheromone_init n rate dep) cs)) i j
     = mat_get (trails (run_calls (Pheromone_init n rate dep) cs)) j i \<and>
   (\<forall>x. mat_get (trails (run_calls (Pheromone_init n rate dep) cs)) i j = Inr x \<longrightarrow> x \<noteq> NaN \<longrightarrow>
      (\<exists>y. mat_get (trails (run_calls (Pheromone_init n rate dep) cs)) j i = Inr y \<and> np_eq x y))"
proof -
  have s: "sym_square n (trails (run_calls (Pheromone_init n rate dep) cs))"
    by (rule run_calls_sym [OF init_sym])
  from s have "square n (trails (run_calls (Pheromone_init n rate dep) cs))"
    by (simp add: sym_square_def)
  with sym_square_mat_get [OF s, of i j] show ?thesis
    by (auto simp: np_eq_same)
qed

theorem pheromone_mirrored_entries_are_the_same_float_witness:
  "mat_get (trails (run_calls (Pheromone_init 3 (1 / 2) 100) [Deposit [0, 1, 2, 0] (Py 3) (Some 1)]))
     0 1 = Inr (F (1 / 10 + 1 / 3)) \<and>
   F (1 / 10 + 1 / 3) \<noteq> NaN \<and>
   mat_get (trails (run_calls (Pheromone_init 3 (1 / 2) 100) [Deposit [0, 1, 2, 0] (Py 3) (Some 1)]))
     1 0 = Inr (F (1 / 10 + 1 / 3)) \<and>
   np_eq (F (1 / 10 + 1 / 3)) (F (1 / 10 + 1 / 3))"
proof -
  let ?t = "trails (run_calls (Pheromone_init 3 (1 / 2) 100) [Deposit [0, 1, 2, 0] (Py 3) (Some 1)])"
  have 1: "mat_get ?t 0 1 = Inr (F (1 / 10 + 1 / 3))"
    by (simp add: run_calls_def deposit_scenario mat_get_def py_index_def)
  from pheromone_mirrored_entries_are_the_same_float
         [of 3 "1 / 2" 100 "[Deposit [0, 1, 2, 0] (Py 3) (Some 1)]" 0 1] 1
  show ?thesis by auto
qed

text \<open>
  C5 as claimed fails where an entry is NaN: on the initial 2-node field,
  \<open>deposit(route=[0,1,0], length=np.float64(0.0), pheromone_deposit=1.0)\<close> makes the
  entries of the edge infinite and \<open>evaporate(1.0)\<close> then makes them NaN, and
  \<open>trails[0, 1] == trails[1, 0]\<close> is false.
\<close>

theorem pheromone_nan_entries_counterexample:
  "trails (run_calls (Pheromone_init 2 (1 / 2) 100)
             [Deposit [0, 1, 0] (Np 0) (Some 1), Evaporate (Some 1)])
     = [[F 0, NaN], [NaN, F 0]] \<and>
   \<not> np_eq
       (trails (run_calls (Pheromone_init 2 (1 / 2) 100)
                  [Deposit [0, 1, 0] (Np 0) (Some 1), Evaporate (Some 1)]) ! 0 ! 1)
       (trails (run_calls (Pheromone_init 2 (1 / 2) 100)
                  [Deposit [0, 1, 0] (Np 0) (Some 1), Evaporate (Some 1)]) ! 1 ! 0)"
  by (simp add: run_calls_def evaporate_def deposit_def deposit_edge_def mat_add_def py_index_def
      py_or_def Pheromone_init_def np_clip_def numeral_2_eq_2)

text \<open>
  C6 (as the code has it). \<open>evaporate(r)\<close> with a rate r given replaces every entry x of
  the matrix by the float product \<open>x * (1 - c)\<close>, where c is r clamped into [0, 1] (0 below
  0, 1 above 1, r otherwise); no rate is rejected. \<open>evaporate(1.0)\<close> makes every finite
  entry zero, and every infinite or NaN entry NaN.
\<close>

theorem evaporate_scales_every_entry:
  "trails (evaporate p (Some r))
     = map (map (\<lambda>x. fmul x (F (1 - (if r < 0 then 0 else if 1 < r then 1 else r)))))
         (trails p)
   \<and> trails (evaporate p (Some 1))
     = map (map (\<lambda>x. case x of F y \<Rightarrow> F 0 | PosInf \<Rightarrow> NaN | NegInf \<Rightarrow> NaN | NaN \<Rightarrow> NaN))
         (trails p)"
proof -
  have "fmul x (F 0) = (case x of F y \<Rightarrow> F 0 | PosInf \<Rightarrow> NaN | NegInf \<Rightarrow> NaN | NaN \<Rightarrow> NaN)"
    for x
    by (cases x) simp_all
  then show ?thesis
    by (simp add: evaporate_def np_clip_def min_def max_def)
qed

text \<open>
  C6 as claimed fails on an infinite entry: on the 2-node field after
  \<open>deposit(route=[0,1,0], length=np.float64(0.0), pheromone_deposit=1.0)\<close>, whose edge
  entries are infinite, \<open>evaporate(1.0)\<close> leaves NaN in them, not zero.
\<close>

theorem evaporate_all_leaves_nan_counterexample:
  "trails (fst (deposit (Pheromone_init 2 (1 / 2) 100) [0, 1, 0] (Np 0) (Some 1)))
     = [[F (1 / 10), PosInf], [PosInf, F (1 / 10)]] \<and>
   trails (evaporate (fst (deposit (Pheromone_init 2 (1 / 2) 100) [0, 1, 0] (Np 0) (Some 1)))
             (Some 1))
     = [[F 0, NaN], [NaN, F 0]]"
  by (simp add: evaporate_def deposit_def deposit_edge_def mat_add_def py_index_def
      py_or_def Pheromone_init_def np_clip_def numeral_2_eq_2)

section \<open>The next-node selection\<close>

lemma np_argmin_less: "xs \<noteq> [] \<Longrightarrow> np_argmin xs < length xs"
  by (induction xs rule: np_argmin.induct) (auto simp: Let_def)

lemma np_argmin_min: "i < length xs \<Longrightarrow> xs ! np_argmin xs \<le> xs ! i"
proof (induction xs arbitrary: i rule: np_argmin.induct)
  case 1
  then show ?case by simp
next
  case (2 x)
  then show ?case by simp
next
  case (3 x y ys)
  show ?case
  proof (cases i)
    case 0
    then show ?thesis by (auto simp: Let_def)
  next
    case (Suc i')
    with 3 have "(y # ys) ! np_argmin (y # ys) \<le> (y # ys) ! i'"
      by simp
    with Suc show ?thesis
      by (auto simp: Let_def)
  qed
qed

lemma np_argmin_first: "i < np_argmin xs \<Longrightarrow> xs ! np_argmin xs < xs ! i"
proof (induction xs arbitrary: i rule: np_argmin.induct)
  case 1
  then show ?case by simp
next
  case (2 x)
  then show ?case by simp
next
  case (3 x y ys)
  show ?case
  proof (cases "x \<le> (y # ys) ! np_argmin (y # ys)")
    case True
    with 3(2) show ?thesis by (simp add: Let_def)
  next
    case False
    show ?thesis
    proof (cases i)
      case 0
      with False show ?thesis by (simp add: Let_def)
    next
      case (Suc i')
      with 3(2) False have "i' < np_argmin (y # ys)" by (simp add: Let_def)
      from 3(1) [OF this] Suc False show ?thesis by (simp add: Let_def)
    qed
  qed
qed

lemma collect_map_Inr:
  "collect (map f xs) = Inr ys \<Longrightarrow>
     length ys = length xs \<and> (\<forall>i<length xs. f (xs ! i) = Inr (ys ! i))"
proof (induction xs arbitrary: ys)
  case Nil
  then show ?case by simp
next
  case (Cons x xs)
  from Cons.prems obtain v vs where fx: "f x = Inr v" and c: "collect (map f xs) = Inr vs"
    and ys: "ys = v # vs"
    by (auto split: sum.splits)
  from Cons.IH [OF c] fx ys show ?case
    by (auto simp: nth_Cons split: nat.splits)
qed

lemma mat_row_Inr:
  assumes "mat_row m i js = Inr ys"
  shows "length ys = length js" and "\<And>k. k < length js \<Longrightarrow> mat_get m i (js ! k) = Inr (ys ! k)"
proof -
  from assms have "collect (map (mat_get m i) js) = Inr ys"
    by (simp add: mat_row_def split: option.splits)
  from collect_map_Inr [OF this] show "length ys = length js"
    and "\<And>k. k < length js \<Longrightarrow> mat_get m i (js ! k) = Inr (ys ! k)"
    by simp_all
qed

lemma available_nodes_increasing: "sorted_wrt (<) (available_nodes a)"
  unfolding available_nodes_def
  by (intro sorted_wrt_filter) (simp add: sorted_wrt_map)


section \<open>Claims about the problem instance\<close>

text \<open>
  C8. \<open>Problem.get_length\<close> of an empty route returns 0 and raises nothing, whatever
  the problem instance.
\<close>

theorem get_length_empty_route: "get_length pr [] = Inr 0"
  by (simp add: get_length_def)

text \<open>
  C9 (as the code has it). No constructor checks the ant count. Once the file has been
  loaded with at least one row, \<open>Problem.__init__\<close> with an ant count below 1 raises
  nothing and stores the count as given, and \<open>Colony.__init__\<close> on that problem raises
  nothing, draws no random number and builds a colony without ants.
\<close>

theorem nonpositive_ant_count_accepted:
  assumes "k < 1"
  shows "\<exists>pr c. Problem_init (Inr (Some (nd # ns))) k a b r d = Inr pr \<and> num_ants pr = k \<and>
           Colony_init randint g pr = (Inr c, g) \<and> ants c = []"
  using assms by (simp add: Problem_init_def Colony_init_def)

theorem nonpositive_ant_count_accepted_witness:
  "(0::int) < 1 \<and>
   (\<exists>pr c. Problem_init (Inr (Some [(1, 0, 0), (2, 1, 0)])) 0 1 2 (1 / 2) 100 = Inr pr \<and>
      num_ants pr = 0 \<and>
      Colony_init (\<lambda>g lo hi. (lo, g)) () pr = (Inr c, ()) \<and> ants c = [])"
  using nonpositive_ant_count_accepted [of 0 "(1, 0, 0)" "[(2, 1, 0)]" 1 2 "1 / 2" 100 "\<lambda>g lo hi. (lo, g)" "()"]
  by simp

text \<open>
  C9 as claimed fails: with an ant count of 0 and two rows loaded, \<open>Problem.__init__\<close>
  returns the instance and raises nothing.
\<close>

theorem ant_count_zero_counterexample:
  "Problem_init (Inr (Some [(1, 0, 0), (2, 1, 0)])) 0 1 2 (1 / 2) 100
     = Inr \<lparr>nodes = Some [(1, 0, 0), (2, 1, 0)],
            distances = Some [[0, 1], [1, 0]],
            num_ants = 0, p_alpha = 1, p_beta = 2,
            p_evaporation_rate = 1 / 2, pheromone_rate = 100\<rparr>"
  by (simp add: Problem_init_def compute_distance_matrix_def)

section \<open>Claims about the ant\<close>

text \<open>
  C7. In \<open>Ant._choose_next_node\<close>, when the selection weights of the unvisited nodes
  (there is at least one) sum to zero, the node returned is the same for every random
  generator and every generator state, and the state is returned as it was: no random
  number is drawn. That node j is unvisited, and every unvisited node k is at least as far
  from the current node as j, and has an index not below j's when it is just as far.
\<close>

theorem fallback_picks_nearest_lowest_index:
  assumes r: "route a \<noteq> []"
    and ph: "mat_row P (last (route a)) (available_nodes a) = Inr pheromone_levels"
    and ds: "mat_row D (last (route a)) (available_nodes a) = Inr distances_to_nodes"
    and ws: "selection_weights a pheromone_levels distances_to_nodes = Some probabilities"
    and z: "sum_list probabilities = 0"
    and av: "available_nodes a \<noteq> []"
  shows "\<exists>j dj. (\<forall>choice' g'. choose_next_node choice' g' a D P = (Inr j, g')) \<and>
           j \<in> set (available_nodes a) \<and>
           mat_get D (last (route a)) j = Inr dj \<and>
           (\<forall>k \<in> set (available_nodes a). \<exists>dk.
               mat_get D (last (route a)) k = Inr dk \<and> dj \<le> dk \<and> (dk = dj \<longrightarrow> j \<le> k))"
proof -
  define m where "m = np_argmin distances_to_nodes"
  define j where "j = available_nodes a ! m"
  have len: "length distances_to_nodes = length (available_nodes a)"
    and get: "\<And>k. k < length (available_nodes a) \<Longrightarrow>
               mat_get D (last (route a)) (available_nodes a ! k) = Inr (distances_to_nodes ! k)"
    using mat_row_Inr [OF ds] by simp_all
  from av len have "distances_to_nodes \<noteq> []"
    by (cases distances_to_nodes) auto
  from np_argmin_less [OF this] len have m: "m < length (available_nodes a)"
    by (simp add: m_def)
  have c: "choose_next_node choice' g' a D P = (Inr j, g')" for choice' :: "'a \<Rightarrow> int list \<Rightarrow> real list \<Rightarrow> int \<times> 'a" and g'
    by (simp add: choose_next_node_def list.case_eq_if r ph ds ws z av j_def m_def)
  have jin: "j \<in> set (available_nodes a)"
    using m by (simp add: j_def)
  have dj: "mat_get D (last (route a)) j = Inr (distances_to_nodes ! m)"
    using get [OF m] by (simp add: j_def)
  have "\<exists>dk. mat_get D (last (route a)) k = Inr dk \<and> distances_to_nodes ! m \<le> dk \<and>
          (dk = distances_to_nodes ! m \<longrightarrow> j \<le> k)"
    if "k \<in> set (available_nodes a)" for k
  proof -
    from that obtain i where i: "i < length (available_nodes a)" and k: "k = available_nodes a ! i"
      by (auto simp: in_set_conv_nth)
    have 1: "mat_get D (last (route a)) k = Inr (distances_to_nodes ! i)"
      using get [OF i] k by simp
    have 2: "distances_to_nodes ! m \<le> distances_to_nodes ! i"
      using np_argmin_min [of i distances_to_nodes] i len by (simp add: m_def)
    have 3: "j \<le> k" if "distances_to_nodes ! i = distances_to_nodes ! m"
    proof -
      have "\<not> i < m"
        using np_argmin_first [of i distances_to_nodes] that by (auto simp: m_def)
      then have "m \<le> i" by simp
      then show ?thesis
      proof (cases "m = i")
        case True
        then show ?thesis by (simp add: j_def k)
      next
        case False
        with \<open>m \<le> i\<close> have "m < i" by simp
        from sorted_wrt_nth_less [OF available_nodes_increasing this i] show ?thesis
          by (simp add: j_def k)
      qed
    qed
    from 1 2 3 show ?thesis by blast
  qed
  with c jin dj show ?thesis by blast
qed


lemma available_nodes_Ant_init_3: "available_nodes (Ant_init 0 3 1 2) = [1, 2]"
  by (simp add: available_nodes_def Ant_init_def numeral_3_eq_3)

theorem fallback_picks_nearest_lowest_index_witness:
  "route (Ant_init 0 3 1 2) \<noteq> [] \<and>
   mat_row [[F 0, F 0, F 0], [F 0, F 0, F 0], [F 0, F 0, F 0]] (last (route (Ant_init 0 3 1 2)))
     (available_nodes (Ant_init 0 3 1 2)) = Inr [F 0, F 0] \<and>
   mat_row [[0, 1, 1], [1, 0, 1], [1, 1, 0 :: real]] (last (route (Ant_init 0 3 1 2)))
     (available_nodes (Ant_init 0 3 1 2)) = Inr [1, 1] \<and>
   selection_weights (Ant_init 0 3 1 2) [F 0, F 0] [1, 1] = Some [0, 0] \<and>
   sum_list [0, 0 :: real] = 0 \<and>
   available_nodes (Ant_init 0 3 1 2) \<noteq> [] \<and>
   choose_next_node (\<lambda>g xs ps. (last xs, g)) () (Ant_init 0 3 1 2)
     [[0, 1, 1], [1, 0, 1], [1, 1, 0]] [[F 0, F 0, F 0], [F 0, F 0, F 0], [F 0, F 0, F 0]] = (Inr 1, ())"
proof -
  let ?a = "Ant_init 0 3 1 2"
  let ?D = "[[0, 1, 1], [1, 0, 1], [1, 1, 0 :: real]]"
  let ?P = "[[F 0, F 0, F 0], [F 0, F 0, F 0], [F 0, F 0, F 0]]"
  have r: "route ?a \<noteq> []" and l: "last (route ?a) = 0"
    by (simp_all add: Ant_init_def)
  have ph: "mat_row ?P (last (route ?a)) (available_nodes ?a) = Inr [F 0, F 0]"
    by (simp add: l available_nodes_Ant_init_3 mat_row_def mat_get_def py_index_def)
  have ds: "mat_row ?D (last (route ?a)) (available_nodes ?a) = Inr [1, 1]"
    by (simp add: l available_nodes_Ant_init_3 mat_row_def mat_get_def py_index_def)
  have ws: "selection_weights ?a [F 0, F 0] [1, 1] = Some [0, 0]"
    by (simp add: selection_weights_def heuristic_values_def Ant_init_def)
  have z: "sum_list [0, 0 :: real] = 0"
    by simp
  have av: "available_nodes ?a \<noteq> []"
    by (simp add: available_nodes_Ant_init_3)
  from fallback_picks_nearest_lowest_index [OF r ph ds ws z av]
  obtain j dj where c: "\<And>(choice' :: unit \<Rightarrow> int list \<Rightarrow> real list \<Rightarrow> int \<times> unit) g'.
        choose_next_node choice' g' ?a ?D ?P = (Inr j, g')"
    and jin: "j \<in> set (available_nodes ?a)"
    and dj: "mat_get ?D (last (route ?a)) j = Inr dj"
    and least: "\<And>k. k \<in> set (available_nodes ?a) \<Longrightarrow>
           \<exists>dk. mat_get ?D (last (route ?a)) k = Inr dk \<and> dj \<le> dk \<and> (dk = dj \<longrightarrow> j \<le> k)"
    by blast
  from jin have j12: "j = 1 \<or> j = 2"
    by (simp add: available_nodes_Ant_init_3)
  then have "dj = 1"
    using dj by (auto simp: l mat_get_def py_index_def)
  moreover from least [of 1] have "\<exists>dk. mat_get ?D 0 1 = Inr dk \<and> dj \<le> dk \<and> (dk = dj \<longrightarrow> j \<le> 1)"
    by (simp add: l available_nodes_Ant_init_3)
  ultimately have "j \<le> 1"
    by (simp add: mat_get_def py_index_def)
  with j12 have "j = 1" by auto
  with c [of "\<lambda>g xs ps. (last xs, g)" "()"] r ph ds ws z av show ?thesis
    by simp
qed

section \<open>The route construction\<close>

lemma visit_all_stop:
  "\<not> length (route a) < num_nodes a \<Longrightarrow> visit_all choice g a D P = ((a, g), None)"
  by simp

lemma visit_all_step:
  "length (route a) < num_nodes a \<Longrightarrow> visit_next choice g a D P = ((a', g'), None) \<Longrightarrow>
     visit_all choice g a D P = visit_all choice g' a' D P"
  by simp

lemma visit_all_raise:
  "length (route a) < num_nodes a \<Longrightarrow> visit_next choice g a D P = ((a', g'), Some e) \<Longrightarrow>
     visit_all choice g a D P = ((a', g'), Some e)"
  by simp

declare visit_all.simps [simp del]

definition valid_choice :: "('g \<Rightarrow> int list \<Rightarrow> real list \<Rightarrow> int \<times> 'g) \<Rightarrow> bool" where
  "valid_choice choice =
     (\<forall>g xs ps. xs \<noteq> [] \<and> length ps = length xs \<and> (\<forall>p \<in> set ps. 0 \<le> p) \<and> sum_list ps = 1
        \<longrightarrow> fst (choice g xs ps) \<in> set xs)"

lemma those_length: "those xs = Some ys \<Longrightarrow> length ys = length xs"
  by (induction xs arbitrary: ys) (auto split: option.splits)

lemma selection_weights_length:
  assumes "selection_weights a ph ds = Some ws" and "length ph = n" and "length ds = n"
  shows "length ws = n"
proof -
  from assms(1) obtain pw where pw: "those (map (\<lambda>x. np_power x (alpha a)) ph) = Some pw"
    and ws: "ws = map (\<lambda>(x, h). x * h) (zip pw (heuristic_values a ds))"
    by (auto simp: selection_weights_def)
  from those_length [OF pw] assms(2,3) show ?thesis
    by (simp add: ws heuristic_values_def)
qed

lemma sum_list_normalised:
  fixes ws :: "real list"
  assumes "sum_list ws \<noteq> 0"
  shows "sum_list (map (\<lambda>w. w / sum_list ws) ws) = 1"
proof -
  have "sum_list (map (\<lambda>w. w / c) ws) = sum_list ws / c" for c :: real
    by (induction ws) (simp_all add: add_divide_distrib)
  with assms show ?thesis by simp
qed

lemma choose_next_node_available:
  assumes vc: "valid_choice choice"
    and c: "choose_next_node choice g a D P = (Inr j, g')"
  shows "j \<in> set (available_nodes a)"
proof -
  from c obtain ph ds ws where
    ph: "mat_row P (last (route a)) (available_nodes a) = Inr ph" and
    ds: "mat_row D (last (route a)) (available_nodes a) = Inr ds" and
    ws: "selection_weights a ph ds = Some ws"
    by (auto simp: choose_next_node_def split: list.splits sum.splits option.splits)
  have lph: "length ph = length (available_nodes a)" and lds: "length ds = length (available_nodes a)"
    using mat_row_Inr(1) [OF ph] mat_row_Inr(1) [OF ds] by simp_all
  have lws: "length ws = length (available_nodes a)"
    by (rule selection_weights_length [OF ws lph lds])
  have rne: "route a \<noteq> []"
    using c by (auto simp: choose_next_node_def)
  show ?thesis
  proof (cases "sum_list ws = 0")
    case True
    with c rne ph ds ws have av: "available_nodes a \<noteq> []"
      and j: "j = available_nodes a ! np_argmin ds"
      by (auto simp: choose_next_node_def list.case_eq_if split: if_splits)
    from av lds have "ds \<noteq> []" by (cases ds) auto
    from np_argmin_less [OF this] lds show ?thesis
      by (simp add: j)
  next
    case False
    let ?ps = "map (\<lambda>w. w / sum_list ws) ws"
    from False c rne ph ds ws have nn: "\<not> list_ex (\<lambda>w. w / sum_list ws < 0) ws"
      and j: "j = fst (choice g (available_nodes a) ?ps)"
      by (auto simp: choose_next_node_def list.case_eq_if split: if_splits prod.splits)
    from False have "ws \<noteq> []" by auto
    with lws have 1: "available_nodes a \<noteq> []" by auto
    have 2: "length ?ps = length (available_nodes a)"
      using lws by simp
    have 3: "\<forall>p \<in> set ?ps. 0 \<le> p"
      using nn by (auto simp: list_ex_iff not_less)
    have 4: "sum_list ?ps = 1"
      by (rule sum_list_normalised [OF False])
    from vc 1 2 3 4 show ?thesis
      unfolding valid_choice_def j by blast
  qed
qed

definition route_inv :: "ant \<Rightarrow> bool" where
  "route_inv a =
     (route a \<noteq> [] \<and> hd (route a) = start_node a \<and> distinct (route a) \<and>
      set (route a) = visited a \<and> set (route a) \<subseteq> int ` {0..<num_nodes a})"

lemma reset_route_inv:
  "0 \<le> start_node a \<Longrightarrow> start_node a < int (num_nodes a) \<Longrightarrow> route_inv (reset a)"
  by (auto simp: route_inv_def reset_def image_iff intro!: bexI [of _ "nat (start_node a)"])

lemma visit_next_route_inv:
  assumes vc: "valid_choice choice" and inv: "route_inv a"
    and v: "visit_next choice g a D P = ((a', g'), None)"
  shows "route_inv a' \<and> start_node a' = start_node a \<and> num_nodes a' = num_nodes a"
proof -
  from v obtain j x where c: "choose_next_node choice g a D P = (Inr j, g')"
    and a': "a' = a\<lparr>route := route a @ [j], visited := insert j (visited a),
                    total_distance := total_distance a + x\<rparr>"
    by (auto simp: visit_next_def split: prod.splits sum.splits)
  from choose_next_node_available [OF vc c]
  have "j \<notin> visited a" and "j \<in> int ` {0..<num_nodes a}"
    by (auto simp: available_nodes_def)
  with inv show ?thesis
    by (auto simp: route_inv_def a')
qed

lemma visit_all_route_inv:
  "valid_choice choice \<Longrightarrow> route_inv a \<Longrightarrow> visit_all choice g a D P = ((a', g'), None) \<Longrightarrow>
           route_inv a' \<and> start_node a' = start_node a \<and> num_nodes a' = num_nodes a \<and>
           \<not> length (route a') < num_nodes a'"
proof (induction choice g a D P rule: visit_all.induct)
  case (1 choice g a D P)
  show ?case
  proof (cases "length (route a) < num_nodes a")
    case False
    with "1.prems"(2,3) show ?thesis by (simp add: visit_all_stop)
  next
    case True
    obtain a1 g1 err where vn: "visit_next choice g a D P = ((a1, g1), err)"
      by (metis surj_pair)
    show ?thesis
    proof (cases err)
      case (Some e)
      with True vn "1.prems"(3) show ?thesis by (simp add: visit_all_raise)
    next
      case None
      with vn have vn': "visit_next choice g a D P = ((a1, g1), None)" by simp
      from visit_next_route_inv [OF "1.prems"(1,2) vn']
      have i1: "route_inv a1" and s1: "start_node a1 = start_node a" and n1: "num_nodes a1 = num_nodes a"
        by simp_all
      from "1.prems"(3) visit_all_step [OF True vn']
      have "visit_all choice g1 a1 D P = ((a', g'), None)" by simp
      from "1.IH" [OF True vn' [symmetric] refl refl "1.prems"(1) i1 this] s1 n1 show ?thesis
        by simp
    qed
  qed
qed


lemma full_route:
  assumes d: "distinct (r :: int list)" and sub: "set r \<subseteq> int ` {0..<n}" and len: "\<not> length r < n"
  shows "length r = n \<and> mset r = mset (map int [0..<n])"
proof -
  have "card (set r) \<le> card (int ` {0..<n})"
    by (rule card_mono [OF _ sub]) simp
  also have "card (int ` {0..<n}) = n"
    by (simp add: card_image)
  finally have "length r \<le> n"
    using d by (simp add: distinct_card)
  with len have l: "length r = n" by simp
  have "card (set r) = card (int ` {0..<n})"
    using d l by (simp add: distinct_card card_image)
  with sub have "set r = int ` {0..<n}"
    by (intro card_subset_eq) simp_all
  then have e: "set r = set (map int [0..<n])"
    by simp
  have d': "distinct (map int [0..<n])"
    by (simp add: distinct_map)
  have "mset r = mset (map int [0..<n])"
    using set_eq_iff_mset_eq_distinct [OF d d'] e by blast
  with l show ?thesis by blast
qed

lemma find_route_Some_visit_all:
  assumes "find_route choice g a D P = ((a', g'), None)"
  shows "\<exists>a1 x. visit_all choice g (reset a) D P = ((a1, g'), None) \<and> route a1 \<noteq> [] \<and>
           mat_get D (last (route a1)) (start_node a1) = Inr x \<and>
           a' = a1\<lparr>route := route a1 @ [start_node a1], total_distance := total_distance a1 + x\<rparr>"
  using assms
  by (auto simp: find_route_def split: prod.splits option.splits list.splits sum.splits)

section \<open>A run on two nodes\<close>

text \<open>
  A generator that draws the first candidate and counts its draws, and the problem of
  two nodes at distance 1 with one ant, its colony and its driver before and after the first
  iteration.
\<close>

definition hd_choice :: "nat \<Rightarrow> int list \<Rightarrow> real list \<Rightarrow> int \<times> nat" where
  "hd_choice g xs ps = (hd xs, Suc g)"

definition lo_randint :: "nat \<Rightarrow> int \<Rightarrow> int \<Rightarrow> int \<times> nat" where
  "lo_randint g lo hi = (lo, Suc g)"

definition two_nodes :: problem where
  "two_nodes =
     \<lparr>nodes = Some [(1, 0, 0), (2, 1, 0)], distances = Some [[0, 1], [1, 0]],
      num_ants = 1, p_alpha = 1, p_beta = 2, p_evaporation_rate = 1 / 2,
      pheromone_rate = 100\<rparr>"

definition two_nodes_colony :: colony where
  "two_nodes_colony =
     \<lparr>c_problem = two_nodes, c_num_nodes = 2,
      pheromones = \<lparr>trails = [[F (1 / 10), F (1 / 10)], [F (1 / 10), F (1 / 10)]],
                    evaporation_rate = 1 / 2, pheromone_deposit = 100\<rparr>,
      ants = [Ant_init 0 2 1 2],
      best_route = [0, 1], best_length = PInf, best_iteration = 0,
      current_iteration = 0, iteration_history = []\<rparr>"

definition two_nodes_colony_after :: colony where
  "two_nodes_colony_after =
     \<lparr>c_problem = two_nodes, c_num_nodes = 2,
      pheromones = \<lparr>trails = [[F (1 / 20), F (2001 / 20)], [F (2001 / 20), F (1 / 20)]],
                    evaporation_rate = 1 / 2, pheromone_deposit = 100\<rparr>,
      ants = [Ant_init 0 2 1 2],
      best_route = [0, 1, 0], best_length = Fin 2, best_iteration = 1,
      current_iteration = 1, iteration_history = [(1, Fin 2)]\<rparr>"

definition two_nodes_driver :: optimization where
  "two_nodes_driver =
     \<lparr>num_iterations = 1, o_colony = two_nodes_colony, o_best_route = None,
      o_best_length = PInf, o_iteration_history = []\<rparr>"

definition two_nodes_driver_after :: optimization where
  "two_nodes_driver_after =
     \<lparr>num_iterations = 1, o_colony = two_nodes_colony_after, o_best_route = Some [0, 1, 0],
      o_best_length = Fin 2, o_iteration_history = [(1, Some [0, 1, 0], Fin 2)]\<rparr>"

definition closed_tour :: ant where
  "closed_tour =
     \<lparr>start_node = 0, route = [0, 1, 0], visited = {1, 0}, total_distance = 2,
      num_nodes = 2, alpha = 1, beta = 2\<rparr>"

lemma valid_choice_hd: "valid_choice hd_choice"
  by (simp add: valid_choice_def hd_choice_def)

lemma two_nodes_init:
  "Problem_init (Inr (Some [(1, 0, 0), (2, 1, 0)])) 1 1 2 (1 / 2) 100 = Inr two_nodes"
  by (simp add: Problem_init_def compute_distance_matrix_def two_nodes_def)

lemma two_nodes_colony_init: "Colony_init lo_randint 0 two_nodes = (Inr two_nodes_colony, 1)"
  by (simp add: Colony_init_def two_nodes_def two_nodes_colony_def lo_randint_def
      Pheromone_init_def np_clip_def numeral_2_eq_2)

lemma two_nodes_driver_init:
  "Optimization_init lo_randint 0 two_nodes 1 = (Inr two_nodes_driver, 1)"
  by (simp add: Optimization_init_def two_nodes_colony_init two_nodes_driver_def)

lemma two_nodes_find_route:
  "find_route hd_choice g (Ant_init 0 2 1 2) [[0, 1], [1, 0]] [[F (1 / 10), F (1 / 10)], [F (1 / 10), F (1 / 10)]]
     = ((closed_tour, Suc g), None)"
proof -
  let ?a = "Ant_init 0 2 1 2"
  let ?D = "[[0, 1], [1, 0 :: real]]"
  let ?P = "[[F (1 / 10), F (1 / 10)], [F (1 / 10), F (1 / 10)]]"
  let ?a1 = "\<lparr>start_node = 0, route = [0, 1], visited = {1, 0}, total_distance = 1,
              num_nodes = 2, alpha = 1, beta = 2\<rparr>"
  have av: "available_nodes (reset ?a) = [1]"
    by (simp add: available_nodes_def reset_def Ant_init_def numeral_2_eq_2)
  have rne: "route (reset ?a) \<noteq> []" and l: "last (route (reset ?a)) = 0"
    by (simp_all add: reset_def Ant_init_def)
  have ph: "mat_row ?P (last (route (reset ?a))) [1] = Inr [F (1 / 10)]"
    by (simp add: l mat_row_def mat_get_def py_index_def)
  have ds: "mat_row ?D (last (route (reset ?a))) [1] = Inr [1]"
    by (simp add: l mat_row_def mat_get_def py_index_def)
  have ws: "selection_weights (reset ?a) [F (1 / 10)] [1] = Some [1 / 10]"
    by (simp add: selection_weights_def heuristic_values_def reset_def Ant_init_def)
  have c: "choose_next_node hd_choice g (reset ?a) ?D ?P = (Inr 1, Suc g)"
    by (simp add: choose_next_node_def list.case_eq_if rne ph ds ws av hd_choice_def)
  have g01: "mat_get ?D (last (route (reset ?a))) 1 = Inr 1"
    by (simp add: l mat_get_def py_index_def)
  have vn: "visit_next hd_choice g (reset ?a) ?D ?P = ((?a1, Suc g), None)"
    by (simp add: visit_next_def c g01) (simp add: reset_def Ant_init_def)
  have "visit_all hd_choice g (reset ?a) ?D ?P = visit_all hd_choice (Suc g) ?a1 ?D ?P"
    by (rule visit_all_step [OF _ vn]) (simp add: reset_def Ant_init_def)
  also have "\<dots> = ((?a1, Suc g), None)"
    by (rule visit_all_stop) simp
  finally have va: "visit_all hd_choice g (reset ?a) ?D ?P = ((?a1, Suc g), None)" .
  show ?thesis
    by (simp add: find_route_def va mat_get_def py_index_def closed_tour_def)
qed

lemma two_nodes_get_length: "get_length two_nodes (route closed_tour) = Inr (total_distance closed_tour)"
  by (simp add: get_length_def two_nodes_def closed_tour_def mat_pairs_def mat_get_def py_index_def)

lemma two_nodes_ants_find_routes:
  "ants_find_routes hd_choice 0 (prepare_iteration two_nodes_colony) [0]
     = ((prepare_iteration two_nodes_colony
           \<lparr>ants := [closed_tour], best_length := Fin 2, best_route := [0, 1, 0],
             best_iteration := 1\<rparr>, 1), None)"
proof -
  let ?c = "prepare_iteration two_nodes_colony"
  have d: "distances two_nodes = Some [[0, 1], [1, 0]]"
    and t: "trails (pheromones ?c) = [[F (1 / 10), F (1 / 10)], [F (1 / 10), F (1 / 10)]]"
    and a: "ants ?c ! 0 = Ant_init 0 2 1 2" and p: "c_problem ?c = two_nodes"
    and b: "best_length ?c = PInf" and as: "ants ?c = [Ant_init 0 2 1 2]"
    and ci: "current_iteration ?c = 1"
    by (simp_all add: prepare_iteration_def two_nodes_colony_def two_nodes_def)
  show ?thesis
    by (simp add: d t a p b as ci two_nodes_find_route two_nodes_get_length)
       (simp add: closed_tour_def)
qed

lemma two_nodes_update_pheromones:
  "update_pheromones
     (prepare_iteration two_nodes_colony
        \<lparr>ants := [closed_tour], best_length := Fin 2, best_route := [0, 1, 0], best_iteration := 1\<rparr>)
   = (prepare_iteration two_nodes_colony
        \<lparr>ants := [closed_tour], best_length := Fin 2, best_route := [0, 1, 0], best_iteration := 1,
          pheromones := \<lparr>trails = [[F (1 / 20), F (2001 / 20)], [F (2001 / 20), F (1 / 20)]],
                    evaporation_rate = 1 / 2, pheromone_deposit = 100\<rparr>\<rparr>, None)"
  by (simp add: update_pheromones_def prepare_iteration_def two_nodes_colony_def evaporate_def
      deposit_def deposit_edge_def mat_add_def py_index_def py_or_def closed_tour_def)

lemma two_nodes_run_iteration:
  "run_iteration hd_choice 0 two_nodes_colony = ((two_nodes_colony_after, 1), None)"
proof -
  have len: "[0..<length (ants (prepare_iteration two_nodes_colony))] = [0]"
    by (simp add: prepare_iteration_def two_nodes_colony_def)
  have "perform_iteration hd_choice 0 (prepare_iteration two_nodes_colony)
          = ((prepare_iteration two_nodes_colony
        \<lparr>ants := [reset closed_tour], best_length := Fin 2, best_route := [0, 1, 0], best_iteration := 1,
          pheromones := \<lparr>trails = [[F (1 / 20), F (2001 / 20)], [F (2001 / 20), F (1 / 20)]],
                    evaporation_rate = 1 / 2, pheromone_deposit = 100\<rparr>\<rparr>, 1), None)"
    unfolding perform_iteration_def len two_nodes_ants_find_routes prod.case option.case
      two_nodes_update_pheromones
    by (simp add: prepare_iteration_def two_nodes_colony_def)
  then show ?thesis
    by (simp add: run_iteration_def finalize_iteration_def prepare_iteration_def
        two_nodes_colony_def two_nodes_colony_after_def reset_def closed_tour_def Ant_init_def)
qed

lemma two_nodes_optimize_iteration:
  "optimize_iteration hd_choice 0 two_nodes_driver 1 = ((two_nodes_driver_after, 1), None)"
  by (simp add: optimize_iteration_def two_nodes_driver_def two_nodes_run_iteration
      two_nodes_driver_after_def two_nodes_colony_after_def)

lemma two_nodes_optimize:
  "optimize hd_choice 0 two_nodes_driver = ((two_nodes_driver_after, 1), None)"
proof -
  have its: "[1..<nat (num_iterations two_nodes_driver) + 1] = [1]"
    by (simp add: two_nodes_driver_def)
  show ?thesis
    unfolding optimize_def its
    by (simp only: optimize_loop.simps two_nodes_optimize_iteration prod.case option.case)
qed

section \<open>The ants of a colony\<close>

text \<open>
  When \<open>random.randint(lo, hi)\<close> returns a number from lo to hi, every ant that
  \<open>Colony.__init__\<close> creates starts at one of the nodes of the problem.
\<close>

definition valid_randint :: "('g \<Rightarrow> int \<Rightarrow> int \<Rightarrow> int \<times> 'g) \<Rightarrow> bool" where
  "valid_randint randint =
     (\<forall>g lo hi. lo \<le> hi \<longrightarrow> lo \<le> fst (randint g lo hi) \<and> fst (randint g lo hi) \<le> hi)"

lemma make_ants_start_in_range:
  "valid_randint randint \<Longrightarrow> make_ants randint g k n a b = (Inr as, g') \<Longrightarrow>
     \<forall>x \<in> set as. 0 \<le> start_node x \<and> start_node x < int (num_nodes x) \<and> num_nodes x = n"
proof (induction k arbitrary: g as)
  case 0
  then show ?case by simp
next
  case (Suc k)
  from Suc.prems(2) have n: "n \<noteq> 0"
    by (auto split: if_splits)
  obtain s g1 where r: "randint g 0 (int n - 1) = (s, g1)"
    by (cases "randint g 0 (int n - 1)")
  with Suc.prems(2) n obtain as1 where m: "make_ants randint g1 k n a b = (Inr as1, g')"
    and as: "as = Ant_init s n a b # as1"
    by (auto split: prod.splits sum.splits)
  from Suc.prems(1) n r have "0 \<le> s \<and> s \<le> int n - 1"
    unfolding valid_randint_def by (metis fst_conv of_nat_0_less_iff zle_diff1_eq gr0I)
  with Suc.IH [OF Suc.prems(1) m] show ?case
    by (auto simp: as Ant_init_def)
qed

lemma colony_ants_start_in_range:
  assumes "valid_randint randint" and "Colony_init randint g pr = (Inr c, g')"
  shows "\<forall>x \<in> set (ants c).
           0 \<le> start_node x \<and> start_node x < int (num_nodes x) \<and> num_nodes x = c_num_nodes c"
proof -
  from assms(2) obtain ns as where ns: "nodes pr = Some ns"
    and m: "make_ants randint g (nat (num_ants pr)) (length ns) (p_alpha pr) (p_beta pr) = (Inr as, g')"
    and c: "ants c = as" "c_num_nodes c = length ns"
    by (auto simp: Colony_init_def split: option.splits prod.splits sum.splits)
  from make_ants_start_in_range [OF assms(1) m] c show ?thesis
    by auto
qed

section \<open>Claims about the completed route\<close>

text \<open>
  C1. Let the ant's start node be one of the nodes \<open>0 .. N-1\<close> (as the colony draws it,
  \<open>colony_ants_start_in_range\<close>; so N is at least 1), and let \<open>np.random.choice\<close> return one of the candidates it is
  given whenever it is given a non-empty candidate list with as many probabilities, none
  negative, summing to 1. Then every route that \<open>Ant.find_route\<close> completes (it returns
  without raising) has length N+1, its first N entries are a permutation of
  \<open>0 .. N-1\<close>, and its last entry is its first entry, the start node.
\<close>

theorem find_route_valid:
  assumes vc: "valid_choice choice"
    and s0: "0 \<le> start_node a" and sn: "start_node a < int (num_nodes a)"
    and f: "find_route choice g a D P = ((a', g'), None)"
  shows "length (route a') = num_nodes a + 1 \<and>
         mset (take (num_nodes a) (route a')) = mset (map int [0..<num_nodes a]) \<and>
         last (route a') = hd (route a') \<and> hd (route a') = start_node a"
proof -
  from find_route_Some_visit_all [OF f] obtain a1 x where
    va: "visit_all choice g (reset a) D P = ((a1, g'), None)" and
    a': "a' = a1\<lparr>route := route a1 @ [start_node a1], total_distance := total_distance a1 + x\<rparr>"
    by blast
  have "route_inv (reset a)"
    by (rule reset_route_inv [OF s0 sn])
  from visit_all_route_inv [OF vc this va]
  have inv: "route_inv a1" and s1: "start_node a1 = start_node a"
    and n1: "num_nodes a1 = num_nodes a" and full: "\<not> length (route a1) < num_nodes a"
    by (simp_all add: reset_def)
  from inv n1 have ne: "route a1 \<noteq> []" and h: "hd (route a1) = start_node a1"
    and d: "distinct (route a1)" and sub: "set (route a1) \<subseteq> int ` {0..<num_nodes a}"
    by (auto simp: route_inv_def)
  from full_route [OF d sub full]
  have l: "length (route a1) = num_nodes a" and m: "mset (route a1) = mset (map int [0..<num_nodes a])"
    by simp_all
  from l m ne h s1 show ?thesis
    by (simp add: a')
qed

theorem find_route_valid_witness:
  "valid_choice hd_choice \<and>
   0 \<le> start_node (Ant_init 0 2 1 2) \<and>
   start_node (Ant_init 0 2 1 2) < int (num_nodes (Ant_init 0 2 1 2)) \<and>
   find_route hd_choice 0 (Ant_init 0 2 1 2) [[0, 1], [1, 0]] [[F (1 / 10), F (1 / 10)], [F (1 / 10), F (1 / 10)]]
     = ((closed_tour, 1), None) \<and>
   route closed_tour = [0, 1, 0] \<and>
   length (route closed_tour) = 2 + 1 \<and>
   mset (take 2 (route closed_tour)) = mset (map int [0..<2]) \<and>
   last (route closed_tour) = hd (route closed_tour) \<and>
   hd (route closed_tour) = 0"
proof -
  have s0: "0 \<le> start_node (Ant_init 0 2 1 2)"
    and sn: "start_node (Ant_init 0 2 1 2) < int (num_nodes (Ant_init 0 2 1 2))"
    by (simp_all add: Ant_init_def)
  have f: "find_route hd_choice 0 (Ant_init 0 2 1 2) [[0, 1], [1, 0]]
             [[F (1 / 10), F (1 / 10)], [F (1 / 10), F (1 / 10)]] = ((closed_tour, 1), None)"
    by (simp add: two_nodes_find_route)
  from find_route_valid [OF valid_choice_hd s0 sn f] valid_choice_hd s0 sn f show ?thesis
    by (simp add: Ant_init_def closed_tour_def)
qed

section \<open>The best length across iterations\<close>

lemma pf_le_refl: "pf_le x x"
  by (cases x) simp_all

lemma pf_less_imp_le: "pf_less x y \<Longrightarrow> pf_le x y"
  by (cases x; cases y) simp_all

lemma pf_le_trans: "pf_le x y \<Longrightarrow> pf_le y z \<Longrightarrow> pf_le x z"
  by (cases x; cases y; cases z) simp_all

lemma pf_less_trans: "pf_less x y \<Longrightarrow> pf_less y z \<Longrightarrow> pf_less x z"
  by (cases x; cases y; cases z) simp_all

text \<open>A best pair after a step: the pair before it, or a strictly shorter length.\<close>

definition kept_or_shorter :: "pyfloat \<times> 'r \<Rightarrow> pyfloat \<times> 'r \<Rightarrow> bool" where
  "kept_or_shorter new old = (new = old \<or> pf_less (fst new) (fst old))"

lemma kept_or_shorter_refl: "kept_or_shorter x x"
  by (simp add: kept_or_shorter_def)

lemma kept_or_shorter_trans:
  "kept_or_shorter z y \<Longrightarrow> kept_or_shorter y x \<Longrightarrow> kept_or_shorter z x"
  by (auto simp: kept_or_shorter_def dest: pf_less_trans)

lemma kept_or_shorter_le: "kept_or_shorter new old \<Longrightarrow> pf_le (fst new) (fst old)"
  by (auto simp: kept_or_shorter_def pf_le_refl pf_less_imp_le)

lemma ants_find_routes_best:
  "ants_find_routes choice g c ks = ((c', g'), err) \<Longrightarrow>
     kept_or_shorter (best_length c', best_route c') (best_length c, best_route c)"
proof (induction ks arbitrary: c g)
  case Nil
  then show ?case by (simp add: kept_or_shorter_refl)
next
  case (Cons k ks)
  show ?case
  proof (cases "distances (c_problem c)")
    case None
    with Cons.prems show ?thesis by (auto simp: kept_or_shorter_refl)
  next
    case (Some D)
    obtain a g1 e1 where fr: "find_route choice g (ants c ! k) D (trails (pheromones c)) = ((a, g1), e1)"
      by (metis surj_pair)
    show ?thesis
    proof (cases e1)
      case (Some e)
      with Cons.prems \<open>distances (c_problem c) = Some D\<close> fr show ?thesis
        by (auto simp: kept_or_shorter_refl)
    next
      case None
      note e1 = this
      show ?thesis
      proof (cases "get_length (c_problem c) (route a)")
        case (Inl e)
        with Cons.prems \<open>distances (c_problem c) = Some D\<close> fr e1 show ?thesis
          by (auto simp: kept_or_shorter_refl)
      next
        case (Inr len)
        define c1 where "c1 =
          (if pf_less (Fin len) (best_length c)
           then c\<lparr>ants := (ants c)[k := a], best_length := Fin len, best_route := route a,
                  best_iteration := current_iteration c\<rparr>
           else c\<lparr>ants := (ants c)[k := a]\<rparr>)"
        from Cons.prems \<open>distances (c_problem c) = Some D\<close> fr e1 Inr
        have "ants_find_routes choice g1 c1 ks = ((c', g'), err)"
          by (simp add: c1_def)
        from Cons.IH [OF this]
        have 1: "kept_or_shorter (best_length c', best_route c') (best_length c1, best_route c1)" .
        have 2: "kept_or_shorter (best_length c1, best_route c1) (best_length c, best_route c)"
          by (simp add: c1_def kept_or_shorter_def)
        from kept_or_shorter_trans [OF 1 2] show ?thesis .
      qed
    qed
  qed
qed

lemma perform_iteration_best:
  assumes "perform_iteration choice g c = ((c', g'), err)"
  shows "kept_or_shorter (best_length c', best_route c') (best_length c, best_route c)"
proof -
  obtain c1 g1 e1 where af: "ants_find_routes choice g c [0..<length (ants c)] = ((c1, g1), e1)"
    by (metis surj_pair)
  from ants_find_routes_best [OF af]
  have 1: "kept_or_shorter (best_length c1, best_route c1) (best_length c, best_route c)" .
  obtain c2 e2 where up: "update_pheromones c1 = (c2, e2)"
    by (cases "update_pheromones c1")
  then have 2: "best_length c2 = best_length c1 \<and> best_route c2 = best_route c1"
    by (auto simp: update_pheromones_def split: prod.splits)
  from assms af up have "best_length c' = best_length c1 \<and> best_route c' = best_route c1"
    using 2 by (cases e1; cases e2) (auto simp: perform_iteration_def)
  with 1 show ?thesis by simp
qed

lemma run_iteration_best:
  assumes "run_iteration choice g c = ((c', g'), err)"
  shows "kept_or_shorter (best_length c', best_route c') (best_length c, best_route c)"
proof -
  obtain c1 g1 e1 where pi: "perform_iteration choice g (prepare_iteration c) = ((c1, g1), e1)"
    by (metis surj_pair)
  from perform_iteration_best [OF pi]
  have 1: "kept_or_shorter (best_length c1, best_route c1) (best_length c, best_route c)"
    by (simp add: prepare_iteration_def)
  from assms pi have "best_length c' = best_length c1 \<and> best_route c' = best_route c1"
    by (cases e1) (auto simp: run_iteration_def finalize_iteration_def)
  with 1 show ?thesis by simp
qed

lemma optimize_iteration_best:
  assumes "optimize_iteration choice g opt it = ((opt', g'), err)"
  shows "kept_or_shorter (o_best_length opt', o_best_route opt') (o_best_length opt, o_best_route opt)"
    and "kept_or_shorter (best_length (o_colony opt'), best_route (o_colony opt'))
           (best_length (o_colony opt), best_route (o_colony opt))"
proof -
  obtain c g1 e1 where ri: "run_iteration choice g (o_colony opt) = ((c, g1), e1)"
    by (metis surj_pair)
  from assms ri have oc: "o_colony opt' = c"
    by (cases e1) (auto simp: optimize_iteration_def split: if_splits)
  from run_iteration_best [OF ri] oc
  show "kept_or_shorter (best_length (o_colony opt'), best_route (o_colony opt'))
           (best_length (o_colony opt), best_route (o_colony opt))"
    by simp
  from assms ri
  show "kept_or_shorter (o_best_length opt', o_best_route opt') (o_best_length opt, o_best_route opt)"
    by (cases e1) (auto simp: optimize_iteration_def kept_or_shorter_def split: if_splits)
qed

lemma optimize_iteration_history:
  assumes "optimize_iteration choice g opt it = ((opt', g'), err)"
  shows "o_iteration_history opt' =
           o_iteration_history opt @
             (if err = None then [(it, o_best_route opt', o_best_length opt')] else [])"
proof -
  obtain c g1 e1 where ri: "run_iteration choice g (o_colony opt) = ((c, g1), e1)"
    by (metis surj_pair)
  from assms ri show ?thesis
    by (cases e1) (auto simp: optimize_iteration_def split: if_splits)
qed

lemma optimize_iteration_raise:
  assumes "optimize_iteration choice g opt it = ((opt', g'), Some e)"
  shows "o_best_length opt' = o_best_length opt"
proof -
  obtain c g1 e1 where ri: "run_iteration choice g (o_colony opt) = ((c, g1), e1)"
    by (metis surj_pair)
  from assms ri show ?thesis
    by (cases e1) (auto simp: optimize_iteration_def split: if_splits)
qed

text \<open>The best lengths of the records that a run appends to the history it started with.\<close>

definition recorded_lengths :: "optimization \<Rightarrow> optimization \<Rightarrow> pyfloat list" where
  "recorded_lengths opt opt' =
     map (\<lambda>(i, r, l). l) (drop (length (o_iteration_history opt)) (o_iteration_history opt'))"

lemma optimize_loop_history:
  "optimize_loop choice g opt its = ((opt', g'), err) \<Longrightarrow>
     take (length (o_iteration_history opt)) (o_iteration_history opt') = o_iteration_history opt \<and>
     length (o_iteration_history opt) \<le> length (o_iteration_history opt') \<and>
     nonincreasing (o_best_length opt # recorded_lengths opt opt') \<and>
     o_best_length opt' = last (o_best_length opt # recorded_lengths opt opt')"
proof (induction its arbitrary: opt g)
  case Nil
  then show ?case by (simp add: recorded_lengths_def)
next
  case (Cons it its)
  obtain opt1 g1 e1 where oi: "optimize_iteration choice g opt it = ((opt1, g1), e1)"
    by (metis surj_pair)
  show ?case
  proof (cases e1)
    case (Some e)
    with Cons.prems oi have "opt' = opt1" by simp
    with optimize_iteration_history [OF oi] optimize_iteration_raise [OF oi [unfolded Some]] Some
    show ?thesis
      by (simp add: recorded_lengths_def)
  next
    case None
    let ?h = "o_iteration_history opt"
    from optimize_iteration_history [OF oi] None
    have h1: "o_iteration_history opt1 = ?h @ [(it, o_best_route opt1, o_best_length opt1)]"
      by simp
    have le1: "pf_le (o_best_length opt1) (o_best_length opt)"
      using kept_or_shorter_le [OF optimize_iteration_best(1) [OF oi]] by simp
    from Cons.prems oi None have "optimize_loop choice g1 opt1 its = ((opt', g'), err)"
      by simp
    from Cons.IH [OF this]
    have t: "take (length (o_iteration_history opt1)) (o_iteration_history opt') = o_iteration_history opt1"
      and l: "length (o_iteration_history opt1) \<le> length (o_iteration_history opt')"
      and n: "nonincreasing (o_best_length opt1 # recorded_lengths opt1 opt')"
      and b: "o_best_length opt' = last (o_best_length opt1 # recorded_lengths opt1 opt')"
      by simp_all
    from t have "o_iteration_history opt' =
        o_iteration_history opt1 @ drop (length (o_iteration_history opt1)) (o_iteration_history opt')"
      by (metis append_take_drop_id)
    then have h': "o_iteration_history opt' =
        ?h @ (it, o_best_route opt1, o_best_length opt1) #
          drop (length (o_iteration_history opt1)) (o_iteration_history opt')"
      by (simp add: h1)
    have r: "recorded_lengths opt opt' = o_best_length opt1 # recorded_lengths opt1 opt'"
      unfolding recorded_lengths_def by (subst h') simp
    have "take (length ?h) (o_iteration_history opt') = ?h"
      by (subst h') simp
    moreover have "length ?h \<le> length (o_iteration_history opt')"
      using l h1 by simp
    ultimately show ?thesis
      using n b le1 by (simp add: r)
  qed
qed

text \<open>
  C2. One pass of the loop of \<open>Optimization.optimize\<close>, from any state and whether it
  raises or not, leaves the driver's best length and the colony's best length at most what
  they were; each of the two pairs of best length and best route is either exactly what it
  was or has a strictly shorter length. In a whole run of \<open>optimize\<close>, the driver's
  initial best length followed by the best lengths the run records, iteration after
  iteration, never goes up, and the driver's final best length is the last of them.
\<close>

theorem best_length_never_increases:
  assumes step: "optimize_iteration choice g opt it = ((opt1, g1), err1)"
    and run: "optimize choice g opt = ((opt2, g2), err2)"
  shows "pf_le (o_best_length opt1) (o_best_length opt) \<and>
         pf_le (best_length (o_colony opt1)) (best_length (o_colony opt)) \<and>
         ((o_best_length opt1, o_best_route opt1) = (o_best_length opt, o_best_route opt) \<or>
          pf_less (o_best_length opt1) (o_best_length opt)) \<and>
         ((best_length (o_colony opt1), best_route (o_colony opt1))
            = (best_length (o_colony opt), best_route (o_colony opt)) \<or>
          pf_less (best_length (o_colony opt1)) (best_length (o_colony opt))) \<and>
         nonincreasing (o_best_length opt # recorded_lengths opt opt2) \<and>
         o_best_length opt2 = last (o_best_length opt # recorded_lengths opt opt2)"
proof -
  note d = optimize_iteration_best(1) [OF step]
  note c = optimize_iteration_best(2) [OF step]
  from optimize_loop_history [OF run [unfolded optimize_def]]
  have h: "nonincreasing (o_best_length opt # recorded_lengths opt opt2)"
    and l: "o_best_length opt2 = last (o_best_length opt # recorded_lengths opt opt2)"
    by simp_all
  from kept_or_shorter_le [OF d] kept_or_shorter_le [OF c] d c h l show ?thesis
    by (simp add: kept_or_shorter_def)
qed

theorem best_length_never_increases_witness:
  "optimize_iteration hd_choice 0 two_nodes_driver 1 = ((two_nodes_driver_after, 1), None) \<and>
   optimize hd_choice 0 two_nodes_driver = ((two_nodes_driver_after, 1), None) \<and>
   o_best_length two_nodes_driver = PInf \<and>
   o_best_length two_nodes_driver_after = Fin 2 \<and>
   recorded_lengths two_nodes_driver two_nodes_driver_after = [Fin 2] \<and>
   pf_less (o_best_length two_nodes_driver_after) (o_best_length two_nodes_driver) \<and>
   pf_less (best_length (o_colony two_nodes_driver_after)) (best_length (o_colony two_nodes_driver)) \<and>
   nonincreasing (o_best_length two_nodes_driver #
                  recorded_lengths two_nodes_driver two_nodes_driver_after)"
proof -
  have "(o_best_length two_nodes_driver_after, o_best_route two_nodes_driver_after)
          \<noteq> (o_best_length two_nodes_driver, o_best_route two_nodes_driver)"
    and "(best_length (o_colony two_nodes_driver_after), best_route (o_colony two_nodes_driver_after))
          \<noteq> (best_length (o_colony two_nodes_driver), best_route (o_colony two_nodes_driver))"
    by (simp_all add: two_nodes_driver_def two_nodes_driver_after_def two_nodes_colony_def
        two_nodes_colony_after_def)
  with best_length_never_increases [OF two_nodes_optimize_iteration two_nodes_optimize]
  have "pf_less (o_best_length two_nodes_driver_after) (o_best_length two_nodes_driver)"
    and "pf_less (best_length (o_colony two_nodes_driver_after))
           (best_length (o_colony two_nodes_driver))"
    and "nonincreasing (o_best_length two_nodes_driver #
                        recorded_lengths two_nodes_driver two_nodes_driver_after)"
    by blast+
  with two_nodes_optimize_iteration two_nodes_optimize show ?thesis
    by (simp add: two_nodes_driver_def two_nodes_driver_after_def recorded_lengths_def)
qed

end
